theory Spec2Isabelle
  imports Main "HOL-Library.Char_ord" "HOL-Library.List_Lexorder"
begin

section \<open>Log export: rows, column collection and CSV rendering\<close>

text \<open>
  A history row is a JavaScript object \<^verbatim>\<open>Record<string, unknown>\<close>. It is modelled as the
  list of its properties in the order \<^verbatim>\<open>Object.keys\<close> enumerates them. A property value
  is null, undefined, a \<^verbatim>\<open>Date\<close> (carried by the text \<^verbatim>\<open>toISOString()\<close> prints for it), a
  string, a boolean, or a value of another kind, such as a number (carried by the text
  \<^verbatim>\<open>String()\<close> prints for it).
\<close>

datatype jsvalue =
    JNull
  | JUndefined
  | JDate string
  | JString string
  | JBool bool
  | JOther string

type_synonym HistoryRow = "(string \<times> jsvalue) list"

definition Object_keys :: "HistoryRow \<Rightarrow> string list" where
  "Object_keys row = map fst row"

text \<open>
  \<^verbatim>\<open>row[column]\<close>: the value of the row's own property of that name; when the row has none,
  the member of that name that the row inherits from \<^verbatim>\<open>Object.prototype\<close> (such as
  \<^verbatim>\<open>constructor\<close>, \<^verbatim>\<open>toString\<close> or \<^verbatim>\<open>valueOf\<close>); undefined when there is neither. The inherited
  members and their values are the host's: they are the parameter \<open>proto\<close>, listed like the
  properties of a row.
\<close>

definition row_get :: "HistoryRow \<Rightarrow> HistoryRow \<Rightarrow> string \<Rightarrow> jsvalue" where
  "row_get proto row column =
     (case map_of row column of
        Some v \<Rightarrow> v
      | None \<Rightarrow> (case map_of proto column of Some v \<Rightarrow> v | None \<Rightarrow> JUndefined))"

text \<open>\<^verbatim>\<open>String(value)\<close> for the values that reach it in \<^verbatim>\<open>escapeCsvValue\<close>.\<close>

fun String_of :: "jsvalue \<Rightarrow> string" where
  "String_of JNull = ''null''"
| "String_of JUndefined = ''undefined''"
| "String_of (JDate txt) = txt"
| "String_of (JString s) = s"
| "String_of (JBool b) = (if b then ''true'' else ''false'')"
| "String_of (JOther t) = t"

definition quote_char :: char where
  "quote_char = CHR 0x22"

definition comma_char :: char where
  "comma_char = CHR '',''"

definition lf_char :: char where
  "lf_char = CHR 0x0A"

definition cr_char :: char where
  "cr_char = CHR 0x0D"

text \<open>\<^verbatim>\<open>str.replace(/"/g, '""')\<close>\<close>

definition replace_quotes :: "string \<Rightarrow> string" where
  "replace_quotes str = concat (map (\<lambda>c. if c = quote_char then [quote_char, quote_char] else [c]) str)"

text \<open>\<^verbatim>\<open>/[",\n]/.test(str)\<close>\<close>

definition test_special :: "string \<Rightarrow> bool" where
  "test_special str = (\<exists>c \<in> set str. c = quote_char \<or> c = comma_char \<or> c = lf_char)"

fun escapeCsvValue :: "jsvalue \<Rightarrow> string" where
  "escapeCsvValue JNull = []"
| "escapeCsvValue JUndefined = []"
| "escapeCsvValue (JDate txt) = txt"
| "escapeCsvValue v =
     (let str = String_of v; escaped = replace_quotes str
      in if test_special str then [quote_char] @ escaped @ [quote_char] else escaped)"

text \<open>
  A JavaScript \<^verbatim>\<open>Set<string>\<close> keeps its members in insertion order; it is modelled as
  the list of its members in that order, and \<^verbatim>\<open>add\<close> appends a member that is new.
\<close>

definition set_add :: "string list \<Rightarrow> string \<Rightarrow> string list" where
  "set_add s k = (if k \<in> set s then s else s @ [k])"

definition collectColumns :: "HistoryRow list \<Rightarrow> string list" where
  "collectColumns rows = foldl (\<lambda>columnSet row. foldl set_add columnSet (Object_keys row)) [] rows"

text \<open>\<^verbatim>\<open>Array.prototype.join\<close> on an array of strings.\<close>

fun join :: "string \<Rightarrow> string list \<Rightarrow> string" where
  "join sep [] = []"
| "join sep [x] = x"
| "join sep (x # y # ys) = x @ sep @ join sep (y # ys)"

definition crlf :: string where
  "crlf = [cr_char, lf_char]"

definition csv_line :: "HistoryRow \<Rightarrow> string list \<Rightarrow> HistoryRow \<Rightarrow> string" where
  "csv_line proto columns row =
     join [comma_char] (map (\<lambda>column. escapeCsvValue (row_get proto row column)) columns)"

definition toCsv :: "HistoryRow \<Rightarrow> HistoryRow list \<Rightarrow> string" where
  "toCsv proto rows =
     (if length rows = 0 then []
      else let columns = collectColumns rows;
               header = join [comma_char] columns;
               lines = map (csv_line proto columns) rows
           in join crlf (header # lines))"


section \<open>Dates\<close>

text \<open>
  A JavaScript \<^verbatim>\<open>Date\<close> is the instant it denotes, in milliseconds since the epoch. The
  ISO text that \<^verbatim>\<open>toISOString()\<close> prints and \<^verbatim>\<open>new Date(text)\<close> reads back denotes the same
  instant, so a stored timestamp is represented by its instant as well.
\<close>

type_synonym instant = int

text \<open>
  Modelled from the spec: the date library (date-fns) is not part of the repository. Its
  functions are written out for a local time zone at a fixed offset \<open>tz\<close> (milliseconds
  ahead of UTC, without daylight saving, as in Jakarta): the start and end of the local
  day, adding whole days, the number of calendar days between two instants, and
  comparison of instants. \<^verbatim>\<open>parseISO\<close> is a parameter of the definitions that call it: it
  returns \<open>None\<close> for text that \<^verbatim>\<open>isValid\<close> rejects.
\<close>

definition MS_PER_DAY :: int where
  "MS_PER_DAY = 86400000"

definition startOfDay :: "int \<Rightarrow> instant \<Rightarrow> instant" where
  "startOfDay tz t = t - ((t + tz) mod MS_PER_DAY)"

definition endOfDay :: "int \<Rightarrow> instant \<Rightarrow> instant" where
  "endOfDay tz t = startOfDay tz t + (MS_PER_DAY - 1)"

definition addDays :: "instant \<Rightarrow> int \<Rightarrow> instant" where
  "addDays t amount = t + amount * MS_PER_DAY"

definition calendarDay :: "int \<Rightarrow> instant \<Rightarrow> int" where
  "calendarDay tz t = (t + tz) div MS_PER_DAY"

definition differenceInCalendarDays :: "int \<Rightarrow> instant \<Rightarrow> instant \<Rightarrow> int" where
  "differenceInCalendarDays tz dateLeft dateRight = calendarDay tz dateLeft - calendarDay tz dateRight"

definition isAfter :: "instant \<Rightarrow> instant \<Rightarrow> bool" where
  "isAfter date dateToCompare = (date > dateToCompare)"

text \<open>
  Modelled from the spec: \<^verbatim>\<open>parseISO\<close> on the calendar-date form \<^verbatim>\<open>YYYY-MM-DD\<close>, the form
  the two date inputs of the log page hold. It yields local midnight of that day, and
  nothing for a month or day that does not exist. It instantiates the parameter
  \<open>parseISO\<close> where a concrete range is evaluated.
\<close>

definition digit_of :: "char \<Rightarrow> int option" where
  "digit_of c = (if CHR ''0'' \<le> c \<and> c \<le> CHR ''9'' then Some (int (of_char c) - 48) else None)"

fun number_of :: "string \<Rightarrow> int option" where
  "number_of [] = None"
| "number_of cs =
     foldl (\<lambda>acc c. case (acc, digit_of c) of (Some n, Some d) \<Rightarrow> Some (10 * n + d) | _ \<Rightarrow> None)
       (Some 0) cs"

definition isLeapYear :: "int \<Rightarrow> bool" where
  "isLeapYear y = (y mod 4 = 0 \<and> (y mod 100 \<noteq> 0 \<or> y mod 400 = 0))"

definition daysInMonth :: "int \<Rightarrow> int \<Rightarrow> int" where
  "daysInMonth y m =
     (if m = 2 then (if isLeapYear y then 29 else 28)
      else if m = 4 \<or> m = 6 \<or> m = 9 \<or> m = 11 then 30 else 31)"

definition days_from_civil :: "int \<Rightarrow> int \<Rightarrow> int \<Rightarrow> int" where
  "days_from_civil y m d =
     (let y' = (if m \<le> 2 then y - 1 else y);
          era = y' div 400;
          yoe = y' - era * 400;
          mp = (m + 9) mod 12;
          doy = (153 * mp + 2) div 5 + d - 1;
          doe = yoe * 365 + yoe div 4 - yoe div 100 + doy
      in era * 146097 + doe - 719468)"

definition parseISO_date :: "int \<Rightarrow> string \<Rightarrow> instant option" where
  "parseISO_date tz text =
     (if length text = 10 \<and> text ! 4 = CHR ''-'' \<and> text ! 7 = CHR ''-'' then
        (case (number_of (take 4 text), number_of (take 2 (drop 5 text)), number_of (drop 8 text)) of
           (Some y, Some m, Some d) \<Rightarrow>
             if 1 \<le> m \<and> m \<le> 12 \<and> 1 \<le> d \<and> d \<le> daysInMonth y m
             then Some (days_from_civil y m d * MS_PER_DAY - tz) else None
         | _ \<Rightarrow> None)
      else None)"

section \<open>The export route\<close>

datatype boundary = Start | End

fun boundary_name :: "boundary \<Rightarrow> string" where
  "boundary_name Start = ''start''"
| "boundary_name End = ''end''"

text \<open>
  \<^verbatim>\<open>parseDateParam\<close>: \<open>Inr None\<close> is \<^verbatim>\<open>undefined\<close> (no bound), \<open>Inl message\<close> is the thrown
  \<^verbatim>\<open>Error\<close>. The parameter is \<open>None\<close> when the URL has no such search parameter.
\<close>

definition parseDateParam ::
  "(string \<Rightarrow> instant option) \<Rightarrow> int \<Rightarrow> string option \<Rightarrow> boundary \<Rightarrow> string + instant option" where
  "parseDateParam parseISO tz value boundary =
     (case value of
        None \<Rightarrow> Inr None
      | Some v \<Rightarrow>
          if v = [] then Inr None
          else (case parseISO v of
                  None \<Rightarrow> Inl (''Invalid '' @ boundary_name boundary @ '' date. Expected ISO format.'')
                | Some parsed \<Rightarrow>
                    Inr (Some (case boundary of Start \<Rightarrow> startOfDay tz parsed | End \<Rightarrow> endOfDay tz parsed))))"

text \<open>
  A read of \<^verbatim>\<open>history_log\<close>: all columns, ordered by \<^verbatim>\<open>created_at\<close> descending, with the
  optional filters \<^verbatim>\<open>gte\<close> and \<^verbatim>\<open>lte\<close> on \<^verbatim>\<open>created_at\<close>. The remote store is a function from
  the read to its \<^verbatim>\<open>{ data, error }\<close>; every function that talks to it returns the list of
  reads it issued next to its result. \<open>proto\<close> holds the members that the rows inherit.
\<close>

record history_query =
  gte_created_at :: "instant option"
  lte_created_at :: "instant option"

record query_result =
  res_data :: "HistoryRow list option"
  res_error :: "string option"

type_synonym remote_log = "history_query \<Rightarrow> query_result"

datatype http_response =
    CsvResponse string
  | JsonErrorResponse nat string

definition GET :: "(string \<Rightarrow> instant option) \<Rightarrow> int \<Rightarrow> HistoryRow \<Rightarrow> remote_log
    \<Rightarrow> string option \<Rightarrow> string option \<Rightarrow> history_query list \<times> http_response" where
  "GET parseISO tz proto remote startParam endParam =
     (case parseDateParam parseISO tz startParam Start of
        Inl message \<Rightarrow> ([], JsonErrorResponse 400 message)
      | Inr startDate \<Rightarrow>
          (case parseDateParam parseISO tz endParam End of
             Inl message \<Rightarrow> ([], JsonErrorResponse 400 message)
           | Inr endDate \<Rightarrow>
               (let query = \<lparr>gte_created_at = startDate, lte_created_at = endDate\<rparr>;
                    result = remote query
                in case res_error result of
                     Some message \<Rightarrow> ([query], JsonErrorResponse 500 message)
                   | None \<Rightarrow>
                       (let rows = (case res_data result of None \<Rightarrow> [] | Some d \<Rightarrow> d);
                            csv = (if length rows \<noteq> 0 then toCsv proto rows else [])
                        in ([query], CsvResponse csv)))))"

section \<open>The history log viewer\<close>

record viewer_state =
  v_rows :: "HistoryRow list"
  v_startDate :: string
  v_endDate :: string
  v_loading :: bool
  v_error :: "string option"
  v_exporting :: bool

definition normaliseDateInput :: "(string \<Rightarrow> instant option) \<Rightarrow> string \<Rightarrow> instant option" where
  "normaliseDateInput parseISO value = (if value = [] then None else parseISO value)"

text \<open>\<^verbatim>\<open>start && end && start > end\<close>\<close>

definition range_inverted :: "instant option \<Rightarrow> instant option \<Rightarrow> bool" where
  "range_inverted start end =
     (case (start, end) of (Some s, Some e) \<Rightarrow> s > e | _ \<Rightarrow> False)"

text \<open>The effect's \<^verbatim>\<open>load\<close>, run to its end without being cancelled.\<close>

definition load :: "(string \<Rightarrow> instant option) \<Rightarrow> int \<Rightarrow> remote_log \<Rightarrow> viewer_state
    \<Rightarrow> history_query list \<times> viewer_state" where
  "load parseISO tz remote st =
     (let st1 = st\<lparr>v_loading := True, v_error := None\<rparr>;
          start = normaliseDateInput parseISO (v_startDate st);
          end = normaliseDateInput parseISO (v_endDate st)
      in if range_inverted start end
         then ([], st1\<lparr>v_error := Some ''Rentang tanggal tidak valid.'', v_rows := [], v_loading := False\<rparr>)
         else
           (let query = \<lparr>gte_created_at = map_option (startOfDay tz) start,
                         lte_created_at = map_option (endOfDay tz) end\<rparr>;
                result = remote query;
                st2 = (case res_error result of
                         Some message \<Rightarrow> st1\<lparr>v_error := Some message, v_rows := []\<rparr>
                       | None \<Rightarrow> st1\<lparr>v_rows := (case res_data result of None \<Rightarrow> [] | Some d \<Rightarrow> d)\<rparr>)
            in ([query], st2\<lparr>v_loading := False\<rparr>)))"

text \<open>
  \<^verbatim>\<open>handleExport\<close>: the request to the export endpoint carries the two date texts that are
  not empty; \<open>fetch\<close> tells whether the response was \<^verbatim>\<open>ok\<close>. The download of the received
  document is outside the model.
\<close>

record export_request =
  param_start :: "string option"
  param_end :: "string option"

definition handleExport :: "(string \<Rightarrow> instant option) \<Rightarrow> (export_request \<Rightarrow> bool) \<Rightarrow> viewer_state
    \<Rightarrow> export_request list \<times> viewer_state" where
  "handleExport parseISO fetch st =
     (let st1 = st\<lparr>v_exporting := True, v_error := None\<rparr>;
          start = normaliseDateInput parseISO (v_startDate st);
          end = normaliseDateInput parseISO (v_endDate st)
      in if range_inverted start end
         then ([], st1\<lparr>v_error := Some ''Rentang tanggal tidak valid.'', v_exporting := False\<rparr>)
         else
           (let request = \<lparr>param_start = (if v_startDate st \<noteq> [] then Some (v_startDate st) else None),
                           param_end = (if v_endDate st \<noteq> [] then Some (v_endDate st) else None)\<rparr>
            in if fetch request
               then ([request], st1\<lparr>v_exporting := False\<rparr>)
               else ([request], st1\<lparr>v_error := Some ''Gagal membuat CSV.'', v_exporting := False\<rparr>)))"


section \<open>Column order of the log table\<close>

definition PREFERRED_ORDER :: "string list" where
  "PREFERRED_ORDER =
     [''created_at'', ''character_name'', ''character_id'', ''action'', ''details'', ''notes'']"

text \<open>The second variant of the viewer orders by snapshot date and prefers more names.\<close>

definition PREFERRED_ORDER_snapshot :: "string list" where
  "PREFERRED_ORDER_snapshot =
     [''snapshot_date'', ''character_name'', ''character_id'', ''action'', ''details'', ''notes'',
      ''daily_status'', ''wtp'', ''sdn_outskirts'', ''sdn_core'', ''golden_active'',
      ''golden_started_at'', ''golden_expired_at'']"

text \<open>\<^verbatim>\<open>Array.prototype.indexOf\<close>: the first position of the name, \<open>-1\<close> when it is absent.\<close>

fun indexOf :: "string list \<Rightarrow> string \<Rightarrow> int" where
  "indexOf [] a = -1"
| "indexOf (x # xs) a =
     (if x = a then 0 else (let i = indexOf xs a in if i = -1 then -1 else i + 1))"

text \<open>
  The comparator handed to \<^verbatim>\<open>sort\<close>, for a preference list \<open>pref\<close>. \<^verbatim>\<open>a.localeCompare(b)\<close> is
  the host's collation and not part of the repository: it is the parameter
  \<open>localeCompare\<close>, a function that is negative, zero or positive as the host puts the
  first name before the second, ties them, or puts it after.
\<close>

definition compareColumns :: "(string \<Rightarrow> string \<Rightarrow> int) \<Rightarrow> string list \<Rightarrow> string \<Rightarrow> string \<Rightarrow> int" where
  "compareColumns localeCompare pref a b =
     (let indexA = indexOf pref a; indexB = indexOf pref b
      in if indexA = -1 \<and> indexB = -1 then localeCompare a b
         else if indexA = -1 then 1
         else if indexB = -1 then -1
         else indexA - indexB)"

text \<open>
  \<^verbatim>\<open>Array.prototype.sort\<close> with a comparator is stable (ECMAScript 2019): elements that
  compare as equal keep their order. It is modelled as the insertion sort with that
  property: an element is put before the first element it does not come after. For a
  consistent comparator every conforming sort returns the list this one returns.
\<close>

fun insertSorted :: "('a \<Rightarrow> 'a \<Rightarrow> int) \<Rightarrow> 'a \<Rightarrow> 'a list \<Rightarrow> 'a list" where
  "insertSorted cmp x [] = [x]"
| "insertSorted cmp x (y # ys) = (if cmp x y \<le> 0 then x # y # ys else y # insertSorted cmp x ys)"

definition array_sort :: "('a \<Rightarrow> 'a \<Rightarrow> int) \<Rightarrow> 'a list \<Rightarrow> 'a list" where
  "array_sort cmp xs = foldr (insertSorted cmp) xs []"

text \<open>The names seen in the rows, in the order of their first appearance.\<close>

definition seenKeys :: "HistoryRow list \<Rightarrow> string list" where
  "seenKeys rows =
     foldl (\<lambda>seen row. foldl (\<lambda>seen key. if key \<notin> set seen then set_add seen key else seen)
                           seen (Object_keys row)) [] rows"

definition orderColumnsBy :: "(string \<Rightarrow> string \<Rightarrow> int) \<Rightarrow> string list \<Rightarrow> HistoryRow list \<Rightarrow> string list" where
  "orderColumnsBy localeCompare pref rows = array_sort (compareColumns localeCompare pref) (seenKeys rows)"

definition orderColumns :: "(string \<Rightarrow> string \<Rightarrow> int) \<Rightarrow> HistoryRow list \<Rightarrow> string list" where
  "orderColumns localeCompare rows = orderColumnsBy localeCompare PREFERRED_ORDER rows"

definition orderColumns_snapshot :: "(string \<Rightarrow> string \<Rightarrow> int) \<Rightarrow> HistoryRow list \<Rightarrow> string list" where
  "orderColumns_snapshot localeCompare rows = orderColumnsBy localeCompare PREFERRED_ORDER_snapshot rows"

section \<open>The dashboard\<close>

text \<open>
  A row of the dashboard. Both variants of the component hold the same properties; the
  five progress fields hold the label that the \<^verbatim>\<open>select\<close> shows, as text.
\<close>

record RowState =
  characterId :: string
  name :: string
  daily :: string
  wtp :: string
  sdn_outskirts :: string
  sdn_core :: string
  golden_goose :: string
  golden_started_at :: "instant option"
  isSaving :: bool
  lastError :: "string option"

datatype FieldKey = Daily | Wtp | Sdn_outskirts | Sdn_core | Golden_goose

definition FIELD_CONFIG :: "FieldKey list" where
  "FIELD_CONFIG = [Daily, Wtp, Sdn_outskirts, Sdn_core, Golden_goose]"

text \<open>\<^verbatim>\<open>row[field]\<close> and \<^verbatim>\<open>{ ...row, [field]: value }\<close>\<close>

fun get_field :: "FieldKey \<Rightarrow> RowState \<Rightarrow> string" where
  "get_field Daily row = daily row"
| "get_field Wtp row = wtp row"
| "get_field Sdn_outskirts row = sdn_outskirts row"
| "get_field Sdn_core row = sdn_core row"
| "get_field Golden_goose row = golden_goose row"

fun set_field :: "FieldKey \<Rightarrow> string \<Rightarrow> RowState \<Rightarrow> RowState" where
  "set_field Daily value row = row\<lparr>daily := value\<rparr>"
| "set_field Wtp value row = row\<lparr>wtp := value\<rparr>"
| "set_field Sdn_outskirts value row = row\<lparr>sdn_outskirts := value\<rparr>"
| "set_field Sdn_core value row = row\<lparr>sdn_core := value\<rparr>"
| "set_field Golden_goose value row = row\<lparr>golden_goose := value\<rparr>"

text \<open>\<^verbatim>\<open>rows.find((row) => row.characterId === characterId)\<close>\<close>

definition find_row :: "RowState list \<Rightarrow> string \<Rightarrow> RowState option" where
  "find_row rows cid = find (\<lambda>row. characterId row = cid) rows"

text \<open>\<^verbatim>\<open>prev.map((row) => row.characterId === characterId ? f(row) : row)\<close>\<close>

definition map_row :: "string \<Rightarrow> (RowState \<Rightarrow> RowState) \<Rightarrow> RowState list \<Rightarrow> RowState list" where
  "map_row cid f prev = map (\<lambda>row. if characterId row = cid then f row else row) prev"

subsection \<open>The rows of a page load: \<^verbatim>\<open>getInitialRows\<close>\<close>

record Character =
  c_id :: string
  c_name :: string

record DailyState =
  s_character_id :: string
  s_daily :: "string option"
  s_wtp :: "string option"
  s_sdn_outskirts :: "string option"
  s_sdn_core :: "string option"
  s_golden_goose :: "string option"
  s_golden_started_at :: "instant option"

fun DEFAULT_VALUES :: "FieldKey \<Rightarrow> string" where
  "DEFAULT_VALUES Daily = ''Not Started''"
| "DEFAULT_VALUES Wtp = ''Locked''"
| "DEFAULT_VALUES Sdn_outskirts = ''Not Started''"
| "DEFAULT_VALUES Sdn_core = ''Not Started''"
| "DEFAULT_VALUES Golden_goose = ''Inactive''"

text \<open>\<^verbatim>\<open>existing?.field ?? DEFAULT_VALUES.field\<close>\<close>

definition or_default :: "DailyState option \<Rightarrow> (DailyState \<Rightarrow> string option) \<Rightarrow> FieldKey \<Rightarrow> string" where
  "or_default existing sel key =
     (case existing of
        None \<Rightarrow> DEFAULT_VALUES key
      | Some e \<Rightarrow> (case sel e of None \<Rightarrow> DEFAULT_VALUES key | Some v \<Rightarrow> v))"

text \<open>The map from character to state keeps the last state listed for a character.\<close>

definition getInitialRows :: "Character list \<Rightarrow> DailyState list \<Rightarrow> RowState list" where
  "getInitialRows characters states =
     map (\<lambda>character.
            (let existing = find (\<lambda>state. s_character_id state = c_id character) (rev states)
             in \<lparr>characterId = c_id character,
                 name = c_name character,
                 daily = or_default existing s_daily Daily,
                 wtp = or_default existing s_wtp Wtp,
                 sdn_outskirts = or_default existing s_sdn_outskirts Sdn_outskirts,
                 sdn_core = or_default existing s_sdn_core Sdn_core,
                 golden_goose = or_default existing s_golden_goose Golden_goose,
                 golden_started_at = (case existing of None \<Rightarrow> None | Some e \<Rightarrow> s_golden_started_at e),
                 isSaving = False,
                 lastError = None\<rparr>))
         characters"

subsection \<open>Editing with a snapshot: \<^verbatim>\<open>handleValueChange\<close>\<close>

text \<open>
  The handler runs in two steps with the remote upsert between them. The first step reads
  \<open>rendered\<close>, the rows of the render that created the handler, takes its snapshot and
  applies the optimistic update to the current rows; the second step applies the
  response. The constants that the handler keeps across the \<^verbatim>\<open>await\<close> are the pending edit.
  \<open>now\<close> is the instant \<^verbatim>\<open>new Date()\<close> gives.
\<close>

record upsert_payload =
  p_character_id :: string
  p_updated_at :: instant
  p_fields :: "(FieldKey \<times> string) list"
  p_golden_started_at :: "instant option"

record pending_edit =
  e_characterId :: string
  e_field :: FieldKey
  e_value :: string
  previousValue :: string
  previousGoldenStartedAt :: "instant option"
  nextGoldenStartedAt :: "instant option"
  payload :: upsert_payload

record dashboard_state =
  d_rows :: "RowState list"
  d_feedback :: "string option"

definition handleValueChange_start ::
  "RowState list \<Rightarrow> string \<Rightarrow> FieldKey \<Rightarrow> string \<Rightarrow> instant \<Rightarrow> dashboard_state
     \<Rightarrow> (pending_edit \<times> dashboard_state) option" where
  "handleValueChange_start rendered cid field value now st =
     (case find_row rendered cid of
        None \<Rightarrow> None
      | Some targetRow \<Rightarrow>
          (let prevValue = get_field field targetRow;
               prevGolden = golden_started_at targetRow;
               nextGolden = (if field = Golden_goose
                             then (if value = ''Active'' then Some now else None)
                             else golden_started_at targetRow);
               rows' = map_row cid
                  (\<lambda>row. (set_field field value row)
                            \<lparr>golden_started_at := nextGolden, isSaving := True, lastError := None\<rparr>)
                  (d_rows st);
               pl = \<lparr>p_character_id = cid, p_updated_at = now,
                     p_fields = map (\<lambda>key. (key, if key = field then value else get_field key targetRow))
                                  FIELD_CONFIG,
                     p_golden_started_at = nextGolden\<rparr>
           in Some (\<lparr>e_characterId = cid, e_field = field, e_value = value,
                      previousValue = prevValue, previousGoldenStartedAt = prevGolden,
                      nextGoldenStartedAt = nextGolden, payload = pl\<rparr>,
                    st\<lparr>d_rows := rows', d_feedback := None\<rparr>)))"

text \<open>The response of the upsert: \<open>None\<close> on success, the error's message otherwise.\<close>

definition handleValueChange_finish :: "pending_edit \<Rightarrow> string option \<Rightarrow> dashboard_state \<Rightarrow> dashboard_state" where
  "handleValueChange_finish e error st =
     (case error of
        Some message \<Rightarrow>
          st\<lparr>d_rows := map_row (e_characterId e)
                  (\<lambda>row. (set_field (e_field e) (previousValue e) row)
                            \<lparr>golden_started_at := previousGoldenStartedAt e, isSaving := False,
                             lastError := Some message\<rparr>)
                  (d_rows st),
             d_feedback := Some ''Gagal menyimpan perubahan. Coba lagi.''\<rparr>
      | None \<Rightarrow>
          st\<lparr>d_rows := map_row (e_characterId e)
                  (\<lambda>row. row\<lparr>golden_started_at := nextGoldenStartedAt e, isSaving := False,
                              lastError := None\<rparr>)
                  (d_rows st),
             d_feedback := Some ''Perubahan tersimpan!''\<rparr>)"

text \<open>
  One edit from start to end with nothing in between: the handler was created by the
  render of the current rows, and \<open>remote\<close> answers the upsert.
\<close>

definition handleValueChange ::
  "(upsert_payload \<Rightarrow> string option) \<Rightarrow> string \<Rightarrow> FieldKey \<Rightarrow> string \<Rightarrow> instant \<Rightarrow> dashboard_state
     \<Rightarrow> dashboard_state" where
  "handleValueChange remote cid field value now st =
     (case handleValueChange_start (d_rows st) cid field value now st of
        None \<Rightarrow> st
      | Some (e, st') \<Rightarrow> handleValueChange_finish e (remote (payload e)) st')"

text \<open>The expiry shown by this variant: \<^verbatim>\<open>isAfter(new Date(), addDays(goldenStarted, 7))\<close>\<close>

definition isExpired :: "RowState \<Rightarrow> instant \<Rightarrow> bool" where
  "isExpired row now =
     (case golden_started_at row of
        None \<Rightarrow> False
      | Some goldenStarted \<Rightarrow> isAfter now (addDays goldenStarted 7))"


subsection \<open>Editing with a patch: \<^verbatim>\<open>upsertFor\<close>\<close>

text \<open>
  The other variant of the component hands \<^verbatim>\<open>upsertFor\<close> a \<^verbatim>\<open>Partial<RowState>\<close>: each property
  is present or not, and the timestamp can be present with the value null.
\<close>

record Patch =
  patch_daily :: "string option"
  patch_wtp :: "string option"
  patch_sdn_outskirts :: "string option"
  patch_sdn_core :: "string option"
  patch_golden_goose :: "string option"
  patch_golden_started_at :: "instant option option"

definition no_patch :: Patch where
  "no_patch = \<lparr>patch_daily = None, patch_wtp = None, patch_sdn_outskirts = None,
               patch_sdn_core = None, patch_golden_goose = None, patch_golden_started_at = None\<rparr>"

text \<open>\<^verbatim>\<open>{ ...row, ...patch }\<close>\<close>

definition apply_patch :: "RowState \<Rightarrow> Patch \<Rightarrow> RowState" where
  "apply_patch row patch =
     row\<lparr>daily := (case patch_daily patch of None \<Rightarrow> daily row | Some v \<Rightarrow> v),
         wtp := (case patch_wtp patch of None \<Rightarrow> wtp row | Some v \<Rightarrow> v),
         sdn_outskirts := (case patch_sdn_outskirts patch of None \<Rightarrow> sdn_outskirts row | Some v \<Rightarrow> v),
         sdn_core := (case patch_sdn_core patch of None \<Rightarrow> sdn_core row | Some v \<Rightarrow> v),
         golden_goose := (case patch_golden_goose patch of None \<Rightarrow> golden_goose row | Some v \<Rightarrow> v),
         golden_started_at :=
           (case patch_golden_started_at patch of None \<Rightarrow> golden_started_at row | Some v \<Rightarrow> v)\<rparr>"

text \<open>The patches that the \<^verbatim>\<open>select\<close> elements of a row build.\<close>

fun onChange :: "FieldKey \<Rightarrow> string \<Rightarrow> instant \<Rightarrow> Patch" where
  "onChange Daily value now = no_patch\<lparr>patch_daily := Some value\<rparr>"
| "onChange Wtp value now = no_patch\<lparr>patch_wtp := Some value\<rparr>"
| "onChange Sdn_outskirts value now = no_patch\<lparr>patch_sdn_outskirts := Some value\<rparr>"
| "onChange Sdn_core value now = no_patch\<lparr>patch_sdn_core := Some value\<rparr>"
| "onChange Golden_goose value now =
     no_patch\<lparr>patch_golden_goose := Some value,
              patch_golden_started_at := Some (if value = ''Active'' then Some now else None)\<rparr>"

text \<open>The label tables; a lookup of text that is no label gives \<^verbatim>\<open>undefined\<close>, here \<open>None\<close>.\<close>

definition dailyLabelToDb :: "string \<Rightarrow> string option" where
  "dailyLabelToDb label =
     (if label = ''Not Started'' then Some ''belum''
      else if label = ''In Progress'' then Some ''in_progress''
      else if label = ''Completed'' then Some ''udah'' else None)"

definition wtpLabelToDb :: "string \<Rightarrow> bool" where
  "wtpLabelToDb label = (label = ''Cleared'')"

definition outskirtsLabelToDb :: "string \<Rightarrow> bool" where
  "outskirtsLabelToDb label = (label = ''Cleared'')"

definition coreLabelToDb :: "string \<Rightarrow> string option" where
  "coreLabelToDb label =
     (if label = ''Not Started'' then Some ''belum''
      else if label = ''Cleared'' then Some ''udah''
      else if label = ''Skipped'' then Some ''skip'' else None)"

definition goldenLabelToDb :: "string \<Rightarrow> bool" where
  "goldenLabelToDb label = (label = ''Active'')"

definition DEV_USER_ID :: string where
  "DEV_USER_ID = ''6c790f9e-04a2-4a35-9c4f-bb7c5f505fa4''"

record daily_state_payload =
  u_user_id :: string
  u_character_id :: string
  u_date :: string
  u_daily_status :: "string option"
  u_wtp :: bool
  u_sdn_outskirts :: bool
  u_sdn_core :: "string option"
  u_golden_active :: bool
  u_golden_started_at :: "instant option"

text \<open>What the \<^verbatim>\<open>try\<close> block throws: an \<^verbatim>\<open>Error\<close> with its message, or another value.\<close>

datatype thrown = ErrorInstance string | OtherValue

text \<open>
  The first \<^verbatim>\<open>setRows\<close> of \<^verbatim>\<open>upsertFor\<close>, the row and payload it computes from \<open>rendered\<close>
  (the rows of the render that created the function; \<open>date\<close> is today's date in Jakarta),
  and the \<^verbatim>\<open>setRows\<close> that applies the outcome.
\<close>

definition upsertFor_start :: "string \<Rightarrow> Patch \<Rightarrow> RowState list \<Rightarrow> RowState list" where
  "upsertFor_start cid patch prev =
     map_row cid (\<lambda>row. (apply_patch row patch)\<lparr>isSaving := True, lastError := None\<rparr>) prev"

definition upsertFor_payload ::
  "RowState list \<Rightarrow> string \<Rightarrow> Patch \<Rightarrow> string \<Rightarrow> instant \<Rightarrow> thrown + RowState \<times> daily_state_payload" where
  "upsertFor_payload rendered cid patch date now =
     (case find_row rendered cid of
        None \<Rightarrow> Inl (ErrorInstance ''Row not found'')
      | Some baseRow \<Rightarrow>
          (let next = apply_patch baseRow patch
           in Inr (next,
                \<lparr>u_user_id = DEV_USER_ID, u_character_id = cid, u_date = date,
                 u_daily_status = dailyLabelToDb (daily next),
                 u_wtp = wtpLabelToDb (wtp next),
                 u_sdn_outskirts = outskirtsLabelToDb (sdn_outskirts next),
                 u_sdn_core = coreLabelToDb (sdn_core next),
                 u_golden_active = goldenLabelToDb (golden_goose next),
                 u_golden_started_at =
                   (if goldenLabelToDb (golden_goose next)
                    then (case golden_started_at next of None \<Rightarrow> Some now | Some t \<Rightarrow> Some t)
                    else None)\<rparr>)))"

definition upsertFor_finish ::
  "string \<Rightarrow> thrown + RowState \<times> daily_state_payload \<Rightarrow> RowState list \<Rightarrow> RowState list" where
  "upsertFor_finish cid outcome prev =
     (case outcome of
        Inr (next, pl) \<Rightarrow>
          map_row cid
            (\<lambda>row. next\<lparr>golden_started_at := u_golden_started_at pl, isSaving := False,
                         lastError := None\<rparr>) prev
      | Inl error \<Rightarrow>
          map_row cid
            (\<lambda>row. row\<lparr>isSaving := False,
                        lastError := Some (case error of ErrorInstance message \<Rightarrow> message
                                           | OtherValue \<Rightarrow> ''Failed to save'')\<rparr>) prev)"

text \<open>
  One call from start to end: the function was created by the render of the current rows,
  and \<open>remote\<close> answers the upsert with the error it reports, if any.
\<close>

definition upsertFor ::
  "(daily_state_payload \<Rightarrow> thrown option) \<Rightarrow> string \<Rightarrow> instant \<Rightarrow> string \<Rightarrow> Patch \<Rightarrow> RowState list
     \<Rightarrow> RowState list" where
  "upsertFor remote date now cid patch rows =
     (let rows1 = upsertFor_start cid patch rows
      in case upsertFor_payload rows cid patch date now of
           Inl error \<Rightarrow> upsertFor_finish cid (Inl error) rows1
         | Inr (next, pl) \<Rightarrow>
             (case remote pl of
                Some error \<Rightarrow> upsertFor_finish cid (Inl error) rows1
              | None \<Rightarrow> upsertFor_finish cid (Inr (next, pl)) rows1))"

text \<open>
  The expiry shown by this variant counts calendar days:
  \<^verbatim>\<open>differenceInCalendarDays(addDays(startedAt, 7), now) < 0\<close>
\<close>

definition isExpired_calendar :: "int \<Rightarrow> RowState \<Rightarrow> instant \<Rightarrow> bool" where
  "isExpired_calendar tz row now =
     (case golden_started_at row of
        None \<Rightarrow> False
      | Some startedAt \<Rightarrow> differenceInCalendarDays tz (addDays startedAt 7) now < 0)"


section \<open>Reference notions for the export\<close>

text \<open>
  The text of a cell, as the spec words it: empty for an absent or null value, the
  ISO text of a date, and the plain text of any other value.
\<close>

fun cell_text :: "jsvalue \<Rightarrow> string" where
  "cell_text JNull = []"
| "cell_text JUndefined = []"
| "cell_text v = String_of v"

text \<open>A text quoted as the spec words it: wrapped in quotes, every quote inside doubled.\<close>

primrec double_quotes :: "string \<Rightarrow> string" where
  "double_quotes [] = []"
| "double_quotes (c # cs) = (if c = quote_char then quote_char # quote_char # double_quotes cs
                             else c # double_quotes cs)"

definition wrap_quoted :: "string \<Rightarrow> string" where
  "wrap_quoted s = quote_char # double_quotes s @ [quote_char]"

definition has_special :: "string \<Rightarrow> bool" where
  "has_special s = (quote_char \<in> set s \<or> comma_char \<in> set s \<or> lf_char \<in> set s)"

text \<open>
  Modelled from the spec: the standard CSV parser of the round-trip property is not part of
  the repository. It is the reader of RFC 4180: records are separated by CR LF, a line
  break at the very end of the document is optional and starts no record, fields are
  separated by commas, a field that opens with a quote runs to its closing quote and may
  hold commas and line breaks, and two quotes inside it stand for one. The document without
  any character has no record. The result is the list of records, each the list of its
  fields; the first record is the header.
\<close>

datatype scan_mode = Unquoted | Quoted

fun parse_records :: "scan_mode \<Rightarrow> string \<Rightarrow> string list \<Rightarrow> string \<Rightarrow> string list list" where
  "parse_records mode field fields_read [] = [rev (rev field # fields_read)]"
| "parse_records Unquoted field fields_read (c # cs) =
     (if c = comma_char then parse_records Unquoted [] (rev field # fields_read) cs
      else if c = cr_char \<and> cs \<noteq> [] \<and> hd cs = lf_char
        then rev (rev field # fields_read) # (if tl cs = [] then [] else parse_records Unquoted [] [] (tl cs))
      else if c = quote_char \<and> field = [] then parse_records Quoted [] fields_read cs
      else parse_records Unquoted (c # field) fields_read cs)"
| "parse_records Quoted field fields_read (c # cs) =
     (if c = quote_char
      then (if cs \<noteq> [] \<and> hd cs = quote_char
            then parse_records Quoted (quote_char # field) fields_read (tl cs)
            else parse_records Unquoted field fields_read cs)
      else parse_records Quoted (c # field) fields_read cs)"

definition parseCsv :: "string \<Rightarrow> string list list" where
  "parseCsv doc = (if doc = [] then [] else parse_records Unquoted [] [] doc)"

text \<open>
  The table a row set stands for: the column names, then for each row the texts of its own
  properties under these names; no record at all for the empty row set.
\<close>

definition table_of :: "string list \<Rightarrow> HistoryRow list \<Rightarrow> string list list" where
  "table_of columns rows =
     (if rows = [] then []
      else columns # map (\<lambda>row. map (\<lambda>column. cell_text (row_get [] row column)) columns) rows)"

text \<open>The names in the rows in the order of their first appearance, and as a set.\<close>

definition first_appearance :: "HistoryRow list \<Rightarrow> string list" where
  "first_appearance rows = rev (remdups (rev (concat (map Object_keys rows))))"

definition field_names :: "HistoryRow list \<Rightarrow> string set" where
  "field_names rows = set (concat (map Object_keys rows))"

text \<open>
  What ECMA-262 asks of a comparator for \<^verbatim>\<open>sort\<close> to be defined, a consistent comparator, in
  the two properties used here: a first element comes before a second exactly when the
  second comes after the first, and coming before or tying is transitive.
\<close>

definition consistent_comparator :: "('a \<Rightarrow> 'a \<Rightarrow> int) \<Rightarrow> bool" where
  "consistent_comparator cmp =
     ((\<forall>a b. (cmp a b < 0) = (0 < cmp b a))
      \<and> (\<forall>a b c. cmp a b \<le> 0 \<longrightarrow> cmp b c \<le> 0 \<longrightarrow> cmp a c \<le> 0))"

text \<open>
  The collation ties no two different names of the rows that are outside the preference
  list.
\<close>

definition no_ties :: "(string \<Rightarrow> string \<Rightarrow> int) \<Rightarrow> string list \<Rightarrow> HistoryRow list \<Rightarrow> bool" where
  "no_ties localeCompare pref rows =
     (\<forall>a \<in> field_names rows. \<forall>b \<in> field_names rows.
        a \<notin> set pref \<longrightarrow> b \<notin> set pref \<longrightarrow> localeCompare a b = 0 \<longrightarrow> a = b)"

text \<open>The names of the rows outside a preference list, in the order of their first appearance.\<close>

definition other_names :: "string list \<Rightarrow> HistoryRow list \<Rightarrow> string list" where
  "other_names pref rows = filter (\<lambda>k. k \<notin> set pref) (first_appearance rows)"

text \<open>
  Modelled from the spec: an instance of the collation for concrete row sets. The
  collation of the host is not fixed by the repository; the instance is a consistent
  comparator with the properties of a collation that the column order can show.
  ECMA-262 asks of \<^verbatim>\<open>localeCompare\<close> that it returns 0 for names that are canonically
  equivalent in Unicode: the instance has that property for the two spellings of the
  letter e with acute accent (in UTF-8, the one character C3 A9 and the letter \<^verbatim>\<open>e\<close>
  followed by the combining accent CC 81), of which it replaces the second by the first.
  It then compares the names as a dictionary does: character by character, punctuation
  before digits before letters, without regard to the case of the letters A to Z; between
  names that differ in case only it puts the lower-case letter first.
\<close>

fun canonical_form :: "string \<Rightarrow> string" where
  "canonical_form (c1 # c2 # c3 # cs) =
     (if c1 = CHR ''e'' \<and> c2 = CHR 0xCC \<and> c3 = CHR 0x81
      then CHR 0xC3 # CHR 0xA9 # canonical_form cs
      else c1 # canonical_form (c2 # c3 # cs))"
| "canonical_form cs = cs"

definition lower_case :: "char \<Rightarrow> char" where
  "lower_case c = (if CHR ''A'' \<le> c \<and> c \<le> CHR ''Z'' then char_of (of_char c + (32 :: nat)) else c)"

definition collation_rank :: "char \<Rightarrow> nat" where
  "collation_rank c =
     (let l = lower_case c
      in if CHR ''0'' \<le> l \<and> l \<le> CHR ''9'' then 256 + of_char l
         else if (CHR ''a'' \<le> l \<and> l \<le> CHR ''z'') \<or> CHR 0x80 \<le> l then 512 + of_char l
         else of_char l)"

definition localeCompare_canonical :: "string \<Rightarrow> string \<Rightarrow> int" where
  "localeCompare_canonical a b =
     (let a' = canonical_form a; b' = canonical_form b;
          ra = map collation_rank a'; rb = map collation_rank b'
      in if ra < rb then -1 else if rb < ra then 1
         else if b' < a' then -1 else if a' < b' then 1 else 0)"

section \<open>Properties\<close>


subsection \<open>Rendering of a cell\<close>

lemma replace_quotes_double: "replace_quotes s = double_quotes s"
  by (induction s) (simp_all add: replace_quotes_def)

lemma double_quotes_plain: "quote_char \<notin> set s \<Longrightarrow> double_quotes s = s"
  by (induction s) auto

lemma test_special_iff: "test_special s = has_special s"
  by (auto simp: test_special_def has_special_def)

lemma escape_text:
  "escapeCsvValue v =
     (case v of JNull \<Rightarrow> [] | JUndefined \<Rightarrow> [] | JDate t \<Rightarrow> t
      | _ \<Rightarrow> if has_special (String_of v) then wrap_quoted (String_of v) else String_of v)"
  by (cases v)
     (auto simp: replace_quotes_double test_special_iff wrap_quoted_def has_special_def
        double_quotes_plain Let_def)

text \<open>
  A column that a row lacks reads as undefined, unless its name is the name of a member
  that the row inherits.
\<close>

lemma row_get_own: "map_of row column = Some v \<Longrightarrow> row_get proto row column = v"
  by (simp add: row_get_def)

lemma row_get_absent:
  "map_of row column = None \<Longrightarrow> map_of proto column = None \<Longrightarrow> row_get proto row column = JUndefined"
  by (simp add: row_get_def)

lemma row_get_inherited:
  "map_of row column = None \<Longrightarrow> map_of proto column = Some v \<Longrightarrow> row_get proto row column = v"
  by (simp add: row_get_def)


subsection \<open>The export of an empty result\<close>

text \<open>
  C10. When the export route has issued its read and the store answers it without an
  error and with no rows (an empty list, or no data at all), the response is the CSV
  response whose body is the empty text: no header line is written.
\<close>

theorem GET_empty_result:
  assumes "GET parseISO tz proto remote startParam endParam = (calls, response)"
    and "query \<in> set calls"
    and "res_error (remote query) = None"
    and "res_data (remote query) = Some [] \<or> res_data (remote query) = None"
  shows "response = CsvResponse []"
  using assms
  by (auto simp: GET_def Let_def split: sum.splits option.splits)

lemma parse_2024_05_01: "parseISO_date tz ''2024-05-01'' = Some (1714521600000 - tz)"
  by (simp add: parseISO_date_def digit_of_def days_from_civil_def daysInMonth_def
      isLeapYear_def MS_PER_DAY_def)

lemma parse_2024_05_10: "parseISO_date tz ''2024-05-10'' = Some (1715299200000 - tz)"
  by (simp add: parseISO_date_def digit_of_def days_from_civil_def daysInMonth_def
      isLeapYear_def MS_PER_DAY_def)

theorem GET_empty_result_witness:
  "GET (parseISO_date 0) 0 [] (\<lambda>q. \<lparr>res_data = Some [], res_error = None\<rparr>)
       (Some ''2024-05-01'') (Some ''2024-05-10'')
     = ([\<lparr>gte_created_at = Some 1714521600000, lte_created_at = Some 1715385599999\<rparr>],
        CsvResponse [])"
proof -
  let ?remote = "\<lambda>q::history_query. \<lparr>res_data = Some [], res_error = None\<rparr>"
  let ?q = "\<lparr>gte_created_at = Some 1714521600000, lte_created_at = Some 1715385599999\<rparr>"
  obtain calls response where
    g: "GET (parseISO_date 0) 0 [] ?remote (Some ''2024-05-01'') (Some ''2024-05-10'') = (calls, response)"
    by (cases "GET (parseISO_date 0) 0 [] ?remote (Some ''2024-05-01'') (Some ''2024-05-10'')")
  have c: "calls = [?q]"
    using g
    by (simp add: GET_def parseDateParam_def parse_2024_05_01 parse_2024_05_10 startOfDay_def
        endOfDay_def MS_PER_DAY_def Let_def)
  have "response = CsvResponse []"
    by (rule GET_empty_result [OF g, of ?q]) (simp_all add: c)
  with g c show ?thesis by simp
qed


subsection \<open>Edits of a dashboard row\<close>

lemma characterId_set_field [simp]: "characterId (set_field f v row) = characterId row"
  by (cases f) simp_all

lemma name_set_field [simp]: "name (set_field f v row) = name row"
  by (cases f) simp_all

lemma golden_started_at_set_field [simp]: "golden_started_at (set_field f v row) = golden_started_at row"
  by (cases f) simp_all

lemma get_set_field_same [simp]: "get_field f (set_field f v row) = v"
  by (cases f) simp_all

lemma get_set_field_other [simp]: "g \<noteq> f \<Longrightarrow> get_field g (set_field f v row) = get_field g row"
  by (cases f; cases g) simp_all

lemma get_field_transient [simp]:
  "get_field g (row\<lparr>golden_started_at := t, isSaving := s, lastError := e\<rparr>) = get_field g row"
  by (cases g) simp_all

lemma set_field_transient:
  "set_field f v (row\<lparr>golden_started_at := t, isSaving := s, lastError := e\<rparr>)
     = (set_field f v row)\<lparr>golden_started_at := t, isSaving := s, lastError := e\<rparr>"
  by (cases f) simp_all

lemma set_set_field [simp]: "set_field f v (set_field f w row) = set_field f v row"
  by (cases f) simp_all

lemma set_get_field [simp]: "set_field f (get_field f row) row = row"
  by (cases f) simp_all

lemma find_row_map_row:
  assumes "\<And>row. characterId (f row) = characterId row"
  shows "find_row (map_row cid f rows) c
           = map_option (\<lambda>row. if characterId row = cid then f row else row) (find_row rows c)"
  using assms by (induction rows) (auto simp: find_row_def map_row_def)

lemma find_row_id: "find_row rows cid = Some r \<Longrightarrow> characterId r = cid"
  by (auto simp: find_row_def find_Some_iff)

lemma map_row_others:
  assumes "\<And>row. characterId (f row) = characterId row"
  shows "filter (\<lambda>row. characterId row \<noteq> cid) (map_row cid f rows) = filter (\<lambda>row. characterId row \<noteq> cid) rows"
  using assms by (induction rows) (auto simp: map_row_def)

text \<open>
  A single edit through \<^verbatim>\<open>handleValueChange\<close>: when the upsert fails, the row is the row from
  before the edit with the error attached; when it succeeds, the row holds the new value
  and the timestamp computed for it.
\<close>

lemma handleValueChange_failure_rolls_back:
  assumes "find_row (d_rows st) cid = Some r"
  shows "find_row (d_rows (handleValueChange (\<lambda>pl. Some message) cid field value now st)) cid
           = Some (r\<lparr>isSaving := False, lastError := Some message\<rparr>)"
  using assms find_row_id [OF assms]
  by (simp add: handleValueChange_def handleValueChange_start_def handleValueChange_finish_def
      Let_def find_row_map_row set_field_transient)

lemma handleValueChange_success_commits:
  assumes "find_row (d_rows st) cid = Some r"
  shows "find_row (d_rows (handleValueChange (\<lambda>pl. None) cid field value now st)) cid
           = Some ((set_field field value r)
                    \<lparr>golden_started_at := (if field = Golden_goose
                                           then (if value = ''Active'' then Some now else None)
                                           else golden_started_at r),
                     isSaving := False, lastError := None\<rparr>)"
  using assms find_row_id [OF assms]
  by (simp add: handleValueChange_def handleValueChange_start_def handleValueChange_finish_def
      Let_def find_row_map_row set_field_transient)

text \<open>
  A single edit through \<^verbatim>\<open>upsertFor\<close> whose upsert the store answers with an error: the row
  keeps the patch, and only the two transient properties are reset. While the upsert is
  in flight the row is saving, which disables its \<^verbatim>\<open>select\<close> elements in this variant.
\<close>

lemma characterId_apply_patch [simp]: "characterId (apply_patch row patch) = characterId row"
  by (simp add: apply_patch_def)

lemma upsertFor_failure_keeps_patch:
  assumes "find_row rows cid = Some r"
  shows "find_row (upsertFor (\<lambda>pl. Some error) date now cid patch rows) cid
           = Some ((apply_patch r patch)
                    \<lparr>isSaving := False,
                     lastError := Some (case error of ErrorInstance message \<Rightarrow> message
                                        | OtherValue \<Rightarrow> ''Failed to save'')\<rparr>)"
  using assms find_row_id [OF assms]
  by (simp add: upsertFor_def upsertFor_start_def upsertFor_payload_def upsertFor_finish_def
      Let_def find_row_map_row)

lemma upsertFor_start_saving:
  assumes "find_row rows cid = Some r"
  shows "map_option isSaving (find_row (upsertFor_start cid patch rows) cid) = Some True"
  using assms find_row_id [OF assms]
  by (simp add: upsertFor_start_def find_row_map_row)

text \<open>
  C1. A failed upsert is to restore the edited field to its value from before the edit.
  \<^verbatim>\<open>handleValueChange\<close> does so (\<open>handleValueChange_failure_rolls_back\<close>). \<^verbatim>\<open>upsertFor\<close>
  does not (\<open>upsertFor_failure_keeps_patch\<close>): for a row whose daily field is
  \<^verbatim>\<open>Not Started\<close>, the edit to \<^verbatim>\<open>Completed\<close> whose upsert is answered with an error leaves
  \<^verbatim>\<open>Completed\<close> in the row, with \<^verbatim>\<open>isSaving\<close> false and \<^verbatim>\<open>lastError\<close> set.
\<close>

theorem upsertFor_failure_keeps_edit:
  "upsertFor (\<lambda>pl. Some OtherValue) date now ''c1'' (onChange Daily ''Completed'' now)
      [\<lparr>characterId = ''c1'', name = ''Aria'', daily = ''Not Started'', wtp = ''Locked'',
        sdn_outskirts = ''Not Started'', sdn_core = ''Not Started'', golden_goose = ''Inactive'',
        golden_started_at = None, isSaving = False, lastError = None\<rparr>]
    = [\<lparr>characterId = ''c1'', name = ''Aria'', daily = ''Completed'', wtp = ''Locked'',
        sdn_outskirts = ''Not Started'', sdn_core = ''Not Started'', golden_goose = ''Inactive'',
        golden_started_at = None, isSaving = False, lastError = Some ''Failed to save''\<rparr>]"
  by (simp add: upsertFor_def upsertFor_start_def upsertFor_payload_def upsertFor_finish_def
      map_row_def find_row_def apply_patch_def no_patch_def Let_def)


subsection \<open>Two edits of one row in flight\<close>

lemma finish_keeps_other_fields:
  "g \<noteq> e_field e \<Longrightarrow>
     map (get_field g) (d_rows (handleValueChange_finish e response st)) = map (get_field g) (d_rows st)"
  by (cases response) (auto simp: handleValueChange_finish_def map_row_def)

lemma start_rows:
  assumes "handleValueChange_start rendered cid field value now st = Some (e, st')"
  obtains targetRow where "find_row rendered cid = Some targetRow"
    and "e_characterId e = cid" and "e_field e = field" and "e_value e = value"
    and "previousValue e = get_field field targetRow"
    and "previousGoldenStartedAt e = golden_started_at targetRow"
    and "nextGoldenStartedAt e = (if field = Golden_goose
                                   then (if value = ''Active'' then Some now else None)
                                   else golden_started_at targetRow)"
    and "d_rows st' = map_row cid
            (\<lambda>row. (set_field field value row)
                      \<lparr>golden_started_at := nextGoldenStartedAt e, isSaving := True, lastError := None\<rparr>)
            (d_rows st)"
  using assms
  by (auto simp: handleValueChange_start_def Let_def split: option.splits)

lemma finish_failure_rows:
  "d_rows (handleValueChange_finish e (Some message) st)
     = map_row (e_characterId e)
         (\<lambda>row. (set_field (e_field e) (previousValue e) row)
                   \<lparr>golden_started_at := previousGoldenStartedAt e, isSaving := False,
                    lastError := Some message\<rparr>) (d_rows st)"
  by (simp add: handleValueChange_finish_def)

lemma finish_success_rows:
  "d_rows (handleValueChange_finish e None st)
     = map_row (e_characterId e)
         (\<lambda>row. row\<lparr>golden_started_at := nextGoldenStartedAt e, isSaving := False,
                     lastError := None\<rparr>) (d_rows st)"
  by (simp add: handleValueChange_finish_def)

text \<open>
  C2. Edit A of field \<open>fA\<close> is issued on the current rows, then edit B of another field
  \<open>fB\<close> of the same row is issued before A is answered (by a handler of any render that
  holds the row). A fails and B succeeds, and the two responses are applied in either
  order. Then the row holds B's value in \<open>fB\<close>, the value from before A in \<open>fA\<close> and its
  old value in every other field, it is no longer saving, and the rows of other characters
  are as before. A response never changes a field other than the one its edit captured;
  the activation timestamp belongs to every snapshot, and every response writes it.
\<close>

theorem concurrent_edits_settle:
  assumes r: "find_row (d_rows st0) cid = Some r"
    and neq: "fA \<noteq> fB"
    and A: "handleValueChange_start (d_rows st0) cid fA vA tA st0 = Some (eA, st1)"
    and B: "handleValueChange_start renderedB cid fB vB tB st1 = Some (eB, st2)"
    and fin: "final = handleValueChange_finish eB None (handleValueChange_finish eA (Some message) st2)
            \<or> final = handleValueChange_finish eA (Some message) (handleValueChange_finish eB None st2)"
  shows "\<exists>r'. find_row (d_rows final) cid = Some r'
            \<and> get_field fB r' = vB
            \<and> get_field fA r' = get_field fA r
            \<and> (\<forall>g. g \<noteq> fA \<longrightarrow> g \<noteq> fB \<longrightarrow> get_field g r' = get_field g r)
            \<and> isSaving r' = False
            \<and> filter (\<lambda>row. characterId row \<noteq> cid) (d_rows final)
                = filter (\<lambda>row. characterId row \<noteq> cid) (d_rows st0)
            \<and> (\<forall>g e response st. g \<noteq> e_field e \<longrightarrow>
                  map (get_field g) (d_rows (handleValueChange_finish e response st))
                    = map (get_field g) (d_rows st))"
proof -
  have id: "characterId r = cid"
    using r by (rule find_row_id)
  from A obtain tA' where a:
    "find_row (d_rows st0) cid = Some tA'" "e_characterId eA = cid" "e_field eA = fA"
    "previousValue eA = get_field fA tA'"
    "d_rows st1 = map_row cid
        (\<lambda>row. (set_field fA vA row)
                  \<lparr>golden_started_at := nextGoldenStartedAt eA, isSaving := True, lastError := None\<rparr>)
        (d_rows st0)"
    by (rule start_rows) blast
  from B obtain tB' where b:
    "e_characterId eB = cid" "e_field eB = fB"
    "d_rows st2 = map_row cid
        (\<lambda>row. (set_field fB vB row)
                  \<lparr>golden_started_at := nextGoldenStartedAt eB, isSaving := True, lastError := None\<rparr>)
        (d_rows st1)"
    by (rule start_rows) blast
  have prev: "previousValue eA = get_field fA r"
    using a r by simp
  have other: "\<forall>g e response st. g \<noteq> e_field e \<longrightarrow>
      map (get_field g) (d_rows (handleValueChange_finish e response st)) = map (get_field g) (d_rows st)"
    by (simp add: finish_keeps_other_fields)
  from fin show ?thesis
  proof
    assume f: "final = handleValueChange_finish eB None (handleValueChange_finish eA (Some message) st2)"
    show ?thesis
      using neq id other
      by (simp add: f finish_failure_rows finish_success_rows a(2,3,5) b prev find_row_map_row r
          map_row_others)
  next
    assume f: "final = handleValueChange_finish eA (Some message) (handleValueChange_finish eB None st2)"
    show ?thesis
      using neq id other
      by (simp add: f finish_failure_rows finish_success_rows a(2,3,5) b prev find_row_map_row r
          map_row_others)
  qed
qed


theorem concurrent_edits_settle_witness:
  "(let st0 = \<lparr>d_rows = getInitialRows [\<lparr>c_id = ''c1'', c_name = ''Aria''\<rparr>] [], d_feedback = None\<rparr>;
        (eA, st1) = the (handleValueChange_start (d_rows st0) ''c1'' Golden_goose ''Active'' 1000 st0);
        (eB, st2) = the (handleValueChange_start (d_rows st1) ''c1'' Daily ''Completed'' 2000 st1);
        final = handleValueChange_finish eB None (handleValueChange_finish eA (Some ''timeout'') st2)
    in d_rows final)
   = [\<lparr>characterId = ''c1'', name = ''Aria'', daily = ''Completed'', wtp = ''Locked'',
       sdn_outskirts = ''Not Started'', sdn_core = ''Not Started'', golden_goose = ''Inactive'',
       golden_started_at = Some 1000, isSaving = False, lastError = None\<rparr>]"
proof -
  let ?st0 = "\<lparr>d_rows = getInitialRows [\<lparr>c_id = ''c1'', c_name = ''Aria''\<rparr>] [], d_feedback = None\<rparr>"
  let ?r = "\<lparr>characterId = ''c1'', name = ''Aria'', daily = ''Not Started'', wtp = ''Locked'',
       sdn_outskirts = ''Not Started'', sdn_core = ''Not Started'', golden_goose = ''Inactive'',
       golden_started_at = None, isSaving = False, lastError = None\<rparr>"
  have rows0: "getInitialRows [\<lparr>c_id = ''c1'', c_name = ''Aria''\<rparr>] [] = [?r]"
    by (simp add: getInitialRows_def or_default_def)
  have r: "find_row (d_rows ?st0) ''c1'' = Some ?r"
    by (simp add: rows0 find_row_def)
  obtain eA st1 where A: "handleValueChange_start (d_rows ?st0) ''c1'' Golden_goose ''Active'' 1000 ?st0 = Some (eA, st1)"
    using r by (simp add: handleValueChange_start_def Let_def)
  have rows1: "d_rows st1 = [?r\<lparr>golden_goose := ''Active'', golden_started_at := Some 1000, isSaving := True\<rparr>]"
    using A by (auto simp: handleValueChange_start_def Let_def rows0 find_row_def map_row_def)
  obtain eB st2 where B: "handleValueChange_start (d_rows st1) ''c1'' Daily ''Completed'' 2000 st1 = Some (eB, st2)"
    by (simp add: handleValueChange_start_def Let_def rows1 find_row_def)
  define final where "final = handleValueChange_finish eB None (handleValueChange_finish eA (Some ''timeout'') st2)"
  have "Golden_goose \<noteq> Daily" by simp
  from concurrent_edits_settle [OF r this A B disjI1 [OF final_def]]
  obtain r' where r': "find_row (d_rows final) ''c1'' = Some r'"
    "get_field Daily r' = ''Completed''" "get_field Golden_goose r' = get_field Golden_goose ?r"
    by blast
  have eval: "d_rows final = [?r\<lparr>daily := ''Completed'', golden_started_at := Some 1000\<rparr>]"
    using A B unfolding final_def
    by (auto simp: handleValueChange_start_def handleValueChange_finish_def Let_def rows0 rows1
        find_row_def map_row_def)
  have "d_rows final = [\<lparr>characterId = ''c1'', name = ''Aria'', daily = ''Completed'', wtp = ''Locked'',
       sdn_outskirts = ''Not Started'', sdn_core = ''Not Started'', golden_goose = ''Inactive'',
       golden_started_at = Some 1000, isSaving = False, lastError = None\<rparr>]"
    using r' eval by simp
  then show ?thesis
    using A B by (simp add: final_def)
qed

subsection \<open>The timed flag and its expiry\<close>

lemma calendarDay_addDays: "calendarDay tz (addDays t n) = calendarDay tz t + n"
  by (simp add: calendarDay_def addDays_def MS_PER_DAY_def algebra_simps)

text \<open>
  C3, amended. An edit of the timed flag through \<^verbatim>\<open>handleValueChange\<close> at the instant \<open>T\<close> sets
  the activation timestamp to \<open>T\<close> when the new label is \<^verbatim>\<open>Active\<close> and clears it otherwise,
  and an edit of another field leaves it as it was, both in the optimistic row and after a
  successful upsert. With the activation timestamp \<open>T\<close>, the check of that component
  (\<^verbatim>\<open>isAfter\<close>) reports expired at \<open>T\<close> plus 7 days and 1 second and not expired at \<open>T\<close> plus
  6 days. The check of the other component counts calendar days: it reports not expired
  at \<open>T\<close> plus 6 days, and it reports expired exactly when the calendar day of the current
  instant is later than the calendar day of \<open>T\<close> plus 7 days.
\<close>

theorem timed_flag_edit_and_expiry:
  assumes "find_row (d_rows st) cid = Some r"
  shows "(\<exists>e st'. handleValueChange_start (d_rows st) cid field value T st = Some (e, st')
            \<and> map_option golden_started_at (find_row (d_rows st') cid)
                = Some (if field = Golden_goose then (if value = ''Active'' then Some T else None)
                        else golden_started_at r)
            \<and> map_option golden_started_at (find_row (d_rows (handleValueChange_finish e None st')) cid)
                = Some (if field = Golden_goose then (if value = ''Active'' then Some T else None)
                        else golden_started_at r))
       \<and> isExpired (row\<lparr>golden_started_at := Some T\<rparr>) (T + 7 * MS_PER_DAY + 1000)
       \<and> \<not> isExpired (row\<lparr>golden_started_at := Some T\<rparr>) (T + 6 * MS_PER_DAY)
       \<and> \<not> isExpired_calendar tz (row\<lparr>golden_started_at := Some T\<rparr>) (T + 6 * MS_PER_DAY)
       \<and> isExpired_calendar tz (row\<lparr>golden_started_at := Some T\<rparr>) now
           = (calendarDay tz (T + 7 * MS_PER_DAY) < calendarDay tz now)"
proof -
  have id: "characterId r = cid"
    using assms by (rule find_row_id)
  have edit: "\<exists>e st'. handleValueChange_start (d_rows st) cid field value T st = Some (e, st')
            \<and> map_option golden_started_at (find_row (d_rows st') cid)
                = Some (if field = Golden_goose then (if value = ''Active'' then Some T else None)
                        else golden_started_at r)
            \<and> map_option golden_started_at (find_row (d_rows (handleValueChange_finish e None st')) cid)
                = Some (if field = Golden_goose then (if value = ''Active'' then Some T else None)
                        else golden_started_at r)"
    using assms id
    by (simp add: handleValueChange_start_def handleValueChange_finish_def Let_def find_row_map_row)
  have after: "isExpired (row\<lparr>golden_started_at := Some T\<rparr>) (T + 7 * MS_PER_DAY + 1000)"
    and before: "\<not> isExpired (row\<lparr>golden_started_at := Some T\<rparr>) (T + 6 * MS_PER_DAY)"
    by (simp_all add: isExpired_def isAfter_def addDays_def MS_PER_DAY_def)
  have days: "isExpired_calendar tz (row\<lparr>golden_started_at := Some T\<rparr>) now
           = (calendarDay tz (T + 7 * MS_PER_DAY) < calendarDay tz now)" for now
    by (simp add: isExpired_calendar_def differenceInCalendarDays_def addDays_def mult.commute)
  have six: "\<not> isExpired_calendar tz (row\<lparr>golden_started_at := Some T\<rparr>) (T + 6 * MS_PER_DAY)"
    using calendarDay_addDays [of tz T 7] calendarDay_addDays [of tz T 6]
    by (simp add: days addDays_def mult.commute)
  show ?thesis
    using edit after before six days by blast
qed

text \<open>
  C3 as stated fails for the calendar-day check: with the flag activated on 1 May 2024 at
  10:00 in Jakarta, the check still reports not expired 7 days and 1 second later, since
  that instant is on the same calendar day as the expiry.
\<close>

theorem calendar_expiry_counterexample:
  "\<not> (\<forall>tz T row. isExpired_calendar tz (row\<lparr>golden_started_at := Some T\<rparr>) (T + 7 * MS_PER_DAY + 1000))"
proof
  assume "\<forall>tz T row. isExpired_calendar tz (row\<lparr>golden_started_at := Some T\<rparr>) (T + 7 * MS_PER_DAY + 1000)"
  then have "isExpired_calendar 25200000 ((hd (getInitialRows [\<lparr>c_id = ''c1'', c_name = ''Aria''\<rparr>] []))\<lparr>golden_started_at := Some 1714532400000\<rparr>)
      (1714532400000 + 7 * MS_PER_DAY + 1000)"
    by blast
  then show False
    by (simp add: isExpired_calendar_def differenceInCalendarDays_def calendarDay_def addDays_def
        MS_PER_DAY_def)
qed

theorem timed_flag_edit_and_expiry_witness:
  "find_row (d_rows \<lparr>d_rows = getInitialRows [\<lparr>c_id = ''c1'', c_name = ''Aria''\<rparr>] [], d_feedback = None\<rparr>) ''c1''
     = Some (hd (getInitialRows [\<lparr>c_id = ''c1'', c_name = ''Aria''\<rparr>] []))
   \<and> map_option golden_started_at
        (find_row (d_rows (handleValueChange (\<lambda>pl. None) ''c1'' Golden_goose ''Active'' 1714532400000
           \<lparr>d_rows = getInitialRows [\<lparr>c_id = ''c1'', c_name = ''Aria''\<rparr>] [], d_feedback = None\<rparr>)) ''c1'')
       = Some (Some 1714532400000)
   \<and> isExpired ((hd (getInitialRows [\<lparr>c_id = ''c1'', c_name = ''Aria''\<rparr>] []))\<lparr>golden_started_at := Some 1714532400000\<rparr>)
        (1714532400000 + 7 * MS_PER_DAY + 1000)
   \<and> \<not> isExpired ((hd (getInitialRows [\<lparr>c_id = ''c1'', c_name = ''Aria''\<rparr>] []))\<lparr>golden_started_at := Some 1714532400000\<rparr>)
        (1714532400000 + 6 * MS_PER_DAY)"
proof -
  let ?st = "\<lparr>d_rows = getInitialRows [\<lparr>c_id = ''c1'', c_name = ''Aria''\<rparr>] [], d_feedback = None\<rparr>"
  let ?r = "hd (getInitialRows [\<lparr>c_id = ''c1'', c_name = ''Aria''\<rparr>] [])"
  have r: "find_row (d_rows ?st) ''c1'' = Some ?r"
    by (simp add: getInitialRows_def or_default_def find_row_def)
  note t = timed_flag_edit_and_expiry [OF r, of Golden_goose "''Active''" 1714532400000 ?r 25200000 0]
  from t obtain e st' where
    s: "handleValueChange_start (d_rows ?st) ''c1'' Golden_goose ''Active'' 1714532400000 ?st = Some (e, st')"
    and g: "map_option golden_started_at (find_row (d_rows (handleValueChange_finish e None st')) ''c1'')
              = Some (Some 1714532400000)"
    by auto
  have "handleValueChange (\<lambda>pl. None) ''c1'' Golden_goose ''Active'' 1714532400000 ?st
          = handleValueChange_finish e None st'"
    using s by (simp add: handleValueChange_def)
  with g r t show ?thesis
    by simp
qed

subsection \<open>Validation of the date range\<close>

text \<open>
  The viewer rejects a range whose two bounds parse and whose start is after its end,
  both when it loads and when it exports: it sets the error and issues no request.
\<close>

lemma load_rejects_inverted_range:
  assumes "range_inverted (normaliseDateInput parseISO (v_startDate st))
             (normaliseDateInput parseISO (v_endDate st))"
  shows "load parseISO tz remote st
           = ([], st\<lparr>v_loading := False, v_error := Some ''Rentang tanggal tidak valid.'', v_rows := []\<rparr>)"
  using assms by (simp add: load_def Let_def)

lemma handleExport_rejects_inverted_range:
  assumes "range_inverted (normaliseDateInput parseISO (v_startDate st))
             (normaliseDateInput parseISO (v_endDate st))"
  shows "handleExport parseISO fetch st
           = ([], st\<lparr>v_exporting := False, v_error := Some ''Rentang tanggal tidak valid.''\<rparr>)"
  using assms by (simp add: handleExport_def Let_def)

lemma range_2024_05_10_to_2024_05_01_inverted:
  "range_inverted (normaliseDateInput (parseISO_date tz) ''2024-05-10'')
     (normaliseDateInput (parseISO_date tz) ''2024-05-01'')"
  by (simp add: range_inverted_def normaliseDateInput_def parse_2024_05_01 parse_2024_05_10)

text \<open>
  C9. A range whose start is after its end is to be rejected before any remote call.
  The viewer does so (\<open>load_rejects_inverted_range\<close>,
  \<open>handleExport_rejects_inverted_range\<close>). The export route does not compare the two
  bounds: for the start 2024-05-10 and the end 2024-05-01 it issues the read with both
  filters, and when the store answers with no rows it responds with the empty CSV
  document and no error.
\<close>

theorem GET_inverted_range_reads:
  "fst (GET (parseISO_date tz) tz proto remote (Some ''2024-05-10'') (Some ''2024-05-01''))
     = [\<lparr>gte_created_at = Some (1715299200000 - tz), lte_created_at = Some (1714607999999 - tz)\<rparr>]
   \<and> GET (parseISO_date tz) tz proto (\<lambda>q. \<lparr>res_data = Some [], res_error = None\<rparr>)
        (Some ''2024-05-10'') (Some ''2024-05-01'')
     = ([\<lparr>gte_created_at = Some (1715299200000 - tz), lte_created_at = Some (1714607999999 - tz)\<rparr>],
        CsvResponse [])"
  by (simp add: GET_def parseDateParam_def parse_2024_05_01 parse_2024_05_10 startOfDay_def
      endOfDay_def MS_PER_DAY_def Let_def split: option.splits)

subsection \<open>Insertion sort by a comparator\<close>

lemma set_insertSorted [simp]: "set (insertSorted cmp x xs) = insert x (set xs)"
  by (induction xs) auto

lemma distinct_insertSorted [simp]: "distinct (insertSorted cmp x xs) = (x \<notin> set xs \<and> distinct xs)"
  by (induction xs) auto

lemma array_sort_Cons: "array_sort cmp (x # xs) = insertSorted cmp x (array_sort cmp xs)"
  by (simp add: array_sort_def)

lemma array_sort_Nil [simp]: "array_sort cmp [] = []"
  by (simp add: array_sort_def)

lemma set_array_sort [simp]: "set (array_sort cmp xs) = set xs"
  by (induction xs) (simp_all add: array_sort_Cons)

lemma distinct_array_sort [simp]: "distinct (array_sort cmp xs) = distinct xs"
  by (induction xs) (simp_all add: array_sort_Cons)

lemma consistent_total: "consistent_comparator cmp \<Longrightarrow> cmp a b \<le> 0 \<or> cmp b a \<le> 0"
  unfolding consistent_comparator_def by (metis linorder_not_less order_less_imp_le)

lemma consistent_trans:
  "consistent_comparator cmp \<Longrightarrow> cmp a b \<le> 0 \<Longrightarrow> cmp b c \<le> 0 \<Longrightarrow> cmp a c \<le> 0"
  unfolding consistent_comparator_def by blast


lemma insertSorted_first:
  "(\<forall>y \<in> set ys. cmp x y \<le> 0) \<Longrightarrow> insertSorted cmp x ys = x # ys"
  by (cases ys) simp_all

lemma sorted_insertSorted:
  assumes "consistent_comparator cmp" and "sorted_wrt (\<lambda>a b. cmp a b \<le> 0) xs"
  shows "sorted_wrt (\<lambda>a b. cmp a b \<le> 0) (insertSorted cmp x xs)"
  using assms(2)
proof (induction xs)
  case Nil
  then show ?case by simp
next
  case (Cons y ys)
  show ?case
  proof (cases "cmp x y \<le> 0")
    case True
    then have "\<forall>z \<in> set ys. cmp x z \<le> 0"
      using Cons.prems consistent_trans [OF assms(1)] by auto
    with True Cons.prems show ?thesis by simp
  next
    case False
    then have "cmp y x \<le> 0"
      using consistent_total [OF assms(1), of x y] by simp
    with False Cons show ?thesis by auto
  qed
qed

lemma sorted_array_sort:
  "consistent_comparator cmp \<Longrightarrow> sorted_wrt (\<lambda>a b. cmp a b \<le> 0) (array_sort cmp xs)"
  by (induction xs) (simp_all add: array_sort_Cons sorted_insertSorted)


text \<open>Two sorted lists of the same distinct elements are equal when no two of them tie.\<close>

lemma sorted_wrt_unique:
  assumes "sorted_wrt R xs" and "sorted_wrt R ys" and "distinct xs" and "distinct ys"
    and "set xs = set ys"
    and "\<And>a b. a \<in> set xs \<Longrightarrow> b \<in> set xs \<Longrightarrow> R a b \<Longrightarrow> R b a \<Longrightarrow> a = b"
  shows "xs = ys"
  using assms
proof (induction xs arbitrary: ys)
  case Nil
  then show ?case by simp
next
  case (Cons x xs)
  then obtain y ys' where ys: "ys = y # ys'"
    by (cases ys) auto
  have xy: "x = y"
  proof (rule ccontr)
    assume ne: "x \<noteq> y"
    with Cons.prems(5) ys have "x \<in> set ys'" "y \<in> set xs" by auto
    then have "R y x" "R x y"
      using Cons.prems(1,2) ys by auto
    moreover have "x \<in> set (x # xs)" "y \<in> set (x # xs)"
      using \<open>y \<in> set xs\<close> by auto
    ultimately have "x = y" by (intro Cons.prems(6))
    with ne show False by simp
  qed
  have "set xs = set ys'"
    using Cons.prems(3,4,5) ys xy by auto
  then have "xs = ys'"
    using Cons.prems ys by (intro Cons.IH) auto
  with xy ys show ?case by simp
qed

subsection \<open>The position of a name in the preference list\<close>

lemma indexOf_ge: "-1 \<le> indexOf pref a"
  by (induction pref) (auto simp: Let_def)

lemma indexOf_absent: "indexOf pref a = -1 \<longleftrightarrow> a \<notin> set pref"
proof (induction pref)
  case Nil
  then show ?case by simp
next
  case (Cons x xs)
  have "indexOf xs a + 1 \<noteq> -1"
    using indexOf_ge [of xs a] by arith
  with Cons show ?case
    by (auto simp: Let_def)
qed

lemma indexOf_range: "a \<in> set pref \<Longrightarrow> 0 \<le> indexOf pref a \<and> indexOf pref a < int (length pref)"
  by (induction pref) (auto simp: Let_def indexOf_absent)

lemma indexOf_nth: "a \<in> set pref \<Longrightarrow> pref ! nat (indexOf pref a) = a"
proof (induction pref)
  case Nil
  then show ?case by simp
next
  case (Cons x xs)
  show ?case
  proof (cases "x = a")
    case True
    then show ?thesis by simp
  next
    case False
    with Cons.prems have in_xs: "a \<in> set xs" by simp
    then have "0 \<le> indexOf xs a" by (simp add: indexOf_range)
    then have "nat (indexOf xs a + 1) = Suc (nat (indexOf xs a))" by simp
    with False in_xs Cons.IH show ?thesis
      by (simp add: Let_def indexOf_absent)
  qed
qed

lemma indexOf_inj: "a \<in> set pref \<Longrightarrow> b \<in> set pref \<Longrightarrow> indexOf pref a = indexOf pref b \<Longrightarrow> a = b"
  by (metis indexOf_nth)

lemma indexOf_Cons_later: "a \<noteq> x \<Longrightarrow> a \<in> set xs \<Longrightarrow> indexOf (x # xs) a = indexOf xs a + 1"
  by (simp add: Let_def indexOf_absent)

lemma indexOf_increasing:
  "distinct pref \<Longrightarrow> sorted_wrt (\<lambda>a b. indexOf pref a < indexOf pref b) pref"
proof (induction pref)
  case Nil
  then show ?case by simp
next
  case (Cons x xs)
  then have ih: "sorted_wrt (\<lambda>a b. indexOf xs a < indexOf xs b) xs" and nx: "x \<notin> set xs"
    by simp_all
  have later: "indexOf (x # xs) a = indexOf xs a + 1" if "a \<in> set xs" for a
    using that nx by (intro indexOf_Cons_later) auto
  have "sorted_wrt (\<lambda>a b. indexOf (x # xs) a < indexOf (x # xs) b) xs"
    using ih by (rule sorted_wrt_mono_rel [rotated]) (simp add: later del: indexOf.simps)
  moreover have "\<forall>a \<in> set xs. indexOf (x # xs) x < indexOf (x # xs) a"
  proof
    fix a
    assume a: "a \<in> set xs"
    have "indexOf (x # xs) x = 0" by simp
    moreover have "0 \<le> indexOf xs a" using a by (simp add: indexOf_range)
    ultimately show "indexOf (x # xs) x < indexOf (x # xs) a"
      using later [OF a] by arith
  qed
  ultimately show ?case by simp
qed

subsection \<open>The names seen and their order\<close>

lemma foldl_set_add_set: "set (foldl set_add s ks) = set s \<union> set ks"
  by (induction ks arbitrary: s) (auto simp: set_add_def)

lemma foldl_set_add_first: "foldl set_add [] ks = rev (remdups (rev ks))"
proof (induction ks rule: rev_induct)
  case Nil
  then show ?case by simp
next
  case (snoc k ks)
  have "set (foldl set_add [] ks) = set ks"
    by (simp add: foldl_set_add_set)
  with snoc show ?case
    by (simp add: set_add_def)
qed

lemma foldl_rows_concat:
  "foldl (\<lambda>s row. foldl f s (g row)) s rows = foldl f s (concat (map g rows))"
  by (induction rows arbitrary: s) simp_all

lemma collectColumns_first_appearance: "collectColumns rows = first_appearance rows"
  by (simp add: collectColumns_def first_appearance_def foldl_rows_concat foldl_set_add_first)

lemma seenKeys_collectColumns: "seenKeys rows = collectColumns rows"
proof -
  have "(\<lambda>seen key. if key \<notin> set seen then set_add seen key else seen) = set_add"
    by (intro ext) (simp add: set_add_def)
  then show ?thesis
    by (simp add: seenKeys_def collectColumns_def)
qed

lemma set_first_appearance [simp]: "set (first_appearance rows) = field_names rows"
  by (simp add: first_appearance_def field_names_def)

lemma distinct_first_appearance [simp]: "distinct (first_appearance rows)"
  by (simp add: first_appearance_def)

lemma finite_field_names [simp]: "finite (field_names rows)"
  by (simp add: field_names_def)


lemma distinct_PREFERRED_ORDER: "distinct PREFERRED_ORDER"
  by (simp add: PREFERRED_ORDER_def)

lemma distinct_PREFERRED_ORDER_snapshot: "distinct PREFERRED_ORDER_snapshot"
  by (simp add: PREFERRED_ORDER_snapshot_def)


subsection \<open>The comparator of the columns\<close>

lemma compareColumns_preferred:
  "a \<in> set pref \<Longrightarrow> b \<in> set pref \<Longrightarrow> compareColumns lc pref a b = indexOf pref a - indexOf pref b"
  by (simp add: compareColumns_def Let_def indexOf_absent)

lemma compareColumns_preferred_other:
  "a \<in> set pref \<Longrightarrow> b \<notin> set pref \<Longrightarrow> compareColumns lc pref a b = -1"
  by (simp add: compareColumns_def Let_def indexOf_absent)

lemma compareColumns_other_preferred:
  "a \<notin> set pref \<Longrightarrow> b \<in> set pref \<Longrightarrow> compareColumns lc pref a b = 1"
  by (simp add: compareColumns_def Let_def indexOf_absent)

lemma compareColumns_others:
  "a \<notin> set pref \<Longrightarrow> b \<notin> set pref \<Longrightarrow> compareColumns lc pref a b = lc a b"
  by (simp add: compareColumns_def Let_def indexOf_absent)




subsection \<open>The column order as a sorted list\<close>

lemma orderColumnsBy_first_appearance:
  "orderColumnsBy lc pref rows = array_sort (compareColumns lc pref) (first_appearance rows)"
  by (simp add: orderColumnsBy_def seenKeys_collectColumns collectColumns_first_appearance)

lemma set_orderColumnsBy [simp]: "set (orderColumnsBy lc pref rows) = field_names rows"
  by (simp add: orderColumnsBy_first_appearance)

lemma distinct_orderColumnsBy [simp]: "distinct (orderColumnsBy lc pref rows)"
  by (simp add: orderColumnsBy_first_appearance)



lemma no_ties_same_names:
  "field_names rows1 = field_names rows2 \<Longrightarrow> no_ties lc pref rows1 = no_ties lc pref rows2"
  by (simp add: no_ties_def)



subsection \<open>An instance of the collation\<close>

lemma consistent_by_keys:
  fixes f :: "'a \<Rightarrow> 'k::linorder" and g :: "'a \<Rightarrow> 'l::linorder"
  defines "cmp \<equiv> \<lambda>a b. if f a < f b then -1 else if f b < f a then 1
                        else if g b < g a then -1 else if g a < g b then 1 else (0::int)"
  shows "consistent_comparator cmp"
proof -
  have before: "(cmp a b < 0) = (f a < f b \<or> (f a = f b \<and> g b < g a))" for a b
    by (auto simp: cmp_def)
  have after: "(0 < cmp a b) = (f b < f a \<or> (f a = f b \<and> g a < g b))" for a b
    by (auto simp: cmp_def)
  have le: "(cmp a b \<le> 0) = (f a < f b \<or> (f a = f b \<and> g b \<le> g a))" for a b
    using after [of a b] by (auto simp: not_less)
  have "(cmp a b < 0) = (0 < cmp b a)" for a b
    unfolding before after by auto
  moreover have "cmp a c \<le> 0" if "cmp a b \<le> 0" "cmp b c \<le> 0" for a b c
    using that unfolding le by auto
  ultimately show ?thesis
    unfolding consistent_comparator_def by blast
qed

lemma consistent_localeCompare_canonical: "consistent_comparator localeCompare_canonical"
proof -
  have "localeCompare_canonical
          = (\<lambda>a b. if map collation_rank (canonical_form a) < map collation_rank (canonical_form b) then -1
                   else if map collation_rank (canonical_form b) < map collation_rank (canonical_form a) then 1
                   else if canonical_form b < canonical_form a then -1
                   else if canonical_form a < canonical_form b then 1 else 0)"
    by (intro ext) (simp add: localeCompare_canonical_def Let_def)
  then show ?thesis
    using consistent_by_keys [of "\<lambda>a. map collation_rank (canonical_form a)" canonical_form]
    by simp
qed

lemma localeCompare_canonical_case:
  "localeCompare_canonical ''alpha'' ''Zeta'' = -1"
  "localeCompare_canonical ''Zeta'' ''alpha'' = 1"
  "localeCompare_canonical ''a'' ''A'' = -1"
  "localeCompare_canonical ''zeta'' ''Zeta'' = -1"
  "localeCompare_canonical ''a_'' ''a1'' = -1"
  "localeCompare_canonical ''a1'' ''ab'' = -1"
  by code_simp+




subsection \<open>Independence of the row order\<close>




subsection \<open>Preferred names first, the others by the collation\<close>

lemma insertSorted_preferred:
  assumes "x \<in> set pref" and "set ps \<subseteq> set pref" and "set us \<inter> set pref = {}"
  shows "insertSorted (compareColumns lc pref) x (ps @ us)
           = insertSorted (\<lambda>a b. indexOf pref a - indexOf pref b) x ps @ us"
  using assms(2)
proof (induction ps)
  case Nil
  show ?case
  proof (cases us)
    case Nil
    then show ?thesis by simp
  next
    case (Cons u us')
    with assms(3) have "u \<notin> set pref" by auto
    with assms(1) Cons show ?thesis
      by (simp add: compareColumns_preferred_other)
  qed
next
  case (Cons p ps)
  then show ?case
    using assms(1) by (simp add: compareColumns_preferred)
qed

lemma insertSorted_others:
  assumes "x \<notin> set pref" and "set us \<inter> set pref = {}"
  shows "insertSorted (compareColumns lc pref) x us = insertSorted lc x us"
  using assms(2) by (induction us) (simp_all add: compareColumns_others assms(1))

lemma insertSorted_other:
  assumes "x \<notin> set pref" and "set ps \<subseteq> set pref" and "set us \<inter> set pref = {}"
  shows "insertSorted (compareColumns lc pref) x (ps @ us) = ps @ insertSorted lc x us"
  using assms(2)
  by (induction ps)
     (simp_all add: insertSorted_others [OF assms(1,3)] compareColumns_other_preferred assms(1))

lemma array_sort_split:
  "array_sort (compareColumns lc pref) xs
     = array_sort (\<lambda>a b. indexOf pref a - indexOf pref b) (filter (\<lambda>k. k \<in> set pref) xs)
       @ array_sort lc (filter (\<lambda>k. k \<notin> set pref) xs)"
proof (induction xs)
  case Nil
  then show ?case by simp
next
  case (Cons x xs)
  let ?ps = "array_sort (\<lambda>a b. indexOf pref a - indexOf pref b) (filter (\<lambda>k. k \<in> set pref) xs)"
  let ?us = "array_sort lc (filter (\<lambda>k. k \<notin> set pref) xs)"
  have ps: "set ?ps \<subseteq> set pref" and us: "set ?us \<inter> set pref = {}"
    by auto
  show ?case
  proof (cases "x \<in> set pref")
    case True
    then show ?thesis
      using insertSorted_preferred [OF True ps us, of lc]
      by (simp add: array_sort_Cons Cons.IH)
  next
    case False
    then show ?thesis
      using insertSorted_other [OF False ps us, of lc]
      by (simp add: array_sort_Cons Cons.IH)
  qed
qed

lemma consistent_index: "consistent_comparator (\<lambda>a b. indexOf pref a - indexOf pref b)"
  by (auto simp: consistent_comparator_def)

lemma array_sort_preferred:
  assumes "distinct pref" and "distinct ps" and "set ps \<subseteq> set pref"
  shows "array_sort (\<lambda>a b. indexOf pref a - indexOf pref b) ps = filter (\<lambda>p. p \<in> set ps) pref"
proof (rule sorted_wrt_unique [where R = "\<lambda>a b. indexOf pref a - indexOf pref b \<le> 0"])
  show "sorted_wrt (\<lambda>a b. indexOf pref a - indexOf pref b \<le> 0)
          (array_sort (\<lambda>a b. indexOf pref a - indexOf pref b) ps)"
    by (rule sorted_array_sort) (rule consistent_index)
  have "sorted_wrt (\<lambda>a b. indexOf pref a < indexOf pref b) (filter (\<lambda>p. p \<in> set ps) pref)"
    using indexOf_increasing [OF assms(1)] by (rule sorted_wrt_filter)
  then show "sorted_wrt (\<lambda>a b. indexOf pref a - indexOf pref b \<le> 0) (filter (\<lambda>p. p \<in> set ps) pref)"
    by (rule sorted_wrt_mono_rel [rotated]) simp
  show "a = b"
    if "a \<in> set (array_sort (\<lambda>a b. indexOf pref a - indexOf pref b) ps)"
      "b \<in> set (array_sort (\<lambda>a b. indexOf pref a - indexOf pref b) ps)"
      "indexOf pref a - indexOf pref b \<le> 0" "indexOf pref b - indexOf pref a \<le> 0" for a b
    using that assms(3) by (intro indexOf_inj [of a pref b]) auto
qed (use assms in auto)

lemma orderColumnsBy_split:
  assumes "distinct pref"
  shows "orderColumnsBy lc pref rows
           = filter (\<lambda>p. p \<in> field_names rows) pref @ array_sort lc (other_names pref rows)"
proof -
  let ?ps = "filter (\<lambda>k. k \<in> set pref) (first_appearance rows)"
  have "array_sort (\<lambda>a b. indexOf pref a - indexOf pref b) ?ps = filter (\<lambda>p. p \<in> set ?ps) pref"
    using assms by (intro array_sort_preferred) auto
  also have "\<dots> = filter (\<lambda>p. p \<in> field_names rows) pref"
    by (rule filter_cong) auto
  finally show ?thesis
    by (simp add: orderColumnsBy_first_appearance array_sort_split other_names_def)
qed

lemma set_other_names [simp]: "set (other_names pref rows) = field_names rows - set pref"
  by (auto simp: other_names_def)

text \<open>Rows that bring one new name put it last among the names seen.\<close>

lemma distinct_single:
  assumes "distinct xs" and "set xs = {n}"
  shows "xs = [n]"
proof (cases xs)
  case Nil
  with assms(2) show ?thesis by simp
next
  case (Cons x xs')
  with assms have "x = n" and "set xs' \<subseteq> {n}" and "n \<notin> set xs'"
    by auto
  then have "xs' = []" by (cases xs') auto
  with Cons \<open>x = n\<close> show ?thesis by simp
qed

lemma remdups_append_filter:
  "remdups (xs @ ys) = filter (\<lambda>x. x \<notin> set ys) (remdups xs) @ remdups ys"
  by (induction xs) auto

lemma first_appearance_new_name:
  assumes "n \<notin> field_names rows" and "field_names (rows @ added) = insert n (field_names rows)"
  shows "first_appearance (rows @ added) = first_appearance rows @ [n]"
proof -
  let ?A = "concat (map Object_keys rows)" and ?B = "concat (map Object_keys added)"
  have A: "n \<notin> set ?A" and B: "set ?B - set ?A = {n}"
    using assms by (auto simp: field_names_def)
  have "distinct [x \<leftarrow> remdups (rev ?B). x \<notin> set ?A]"
    by simp
  moreover have "set [x \<leftarrow> remdups (rev ?B). x \<notin> set ?A] = {n}"
    using B by auto
  ultimately have single: "[x \<leftarrow> remdups (rev ?B). x \<notin> set ?A] = [n]"
    by (rule distinct_single)
  have "remdups (rev ?B @ rev ?A) = [x \<leftarrow> remdups (rev ?B). x \<notin> set (rev ?A)] @ remdups (rev ?A)"
    by (rule remdups_append_filter)
  also have "\<dots> = [n] @ remdups (rev ?A)"
    using single by (simp only: set_rev)
  finally have "rev (remdups (rev (?A @ ?B))) = rev (remdups (rev ?A)) @ [n]"
    by (simp only: rev_append rev.simps append.simps)
  then show ?thesis
    by (simp only: first_appearance_def map_append concat_append)
qed

lemma insertSorted_filter:
  assumes "consistent_comparator cmp" and "sorted_wrt (\<lambda>a b. cmp a b \<le> 0) ys" and "x \<noteq> n"
  shows "filter (\<lambda>c. c \<noteq> n) (insertSorted cmp x ys) = insertSorted cmp x (filter (\<lambda>c. c \<noteq> n) ys)"
  using assms(2)
proof (induction ys)
  case Nil
  with assms(3) show ?case by simp
next
  case (Cons y ys)
  show ?case
  proof (cases "cmp x y \<le> 0")
    case True
    have "\<forall>z \<in> set ys. cmp x z \<le> 0"
      using True Cons.prems consistent_trans [OF assms(1)] by auto
    then have "insertSorted cmp x (filter (\<lambda>c. c \<noteq> n) ys) = x # filter (\<lambda>c. c \<noteq> n) ys"
      by (intro insertSorted_first) auto
    with True assms(3) show ?thesis by simp
  next
    case False
    with Cons show ?thesis by simp
  qed
qed

lemma array_sort_new_name:
  assumes "consistent_comparator cmp" and "n \<notin> set us"
  shows "filter (\<lambda>c. c \<noteq> n) (array_sort cmp (us @ [n])) = array_sort cmp us"
  using assms(2)
proof (induction us)
  case Nil
  then show ?case by (simp add: array_sort_Cons)
next
  case (Cons u us)
  have "sorted_wrt (\<lambda>a b. cmp a b \<le> 0) (array_sort cmp (us @ [n]))"
    using assms(1) by (rule sorted_array_sort)
  then have "filter (\<lambda>c. c \<noteq> n) (insertSorted cmp u (array_sort cmp (us @ [n])))
               = insertSorted cmp u (filter (\<lambda>c. c \<noteq> n) (array_sort cmp (us @ [n])))"
    using Cons.prems by (intro insertSorted_filter [OF assms(1)]) auto
  with Cons show ?case
    by (simp add: array_sort_Cons)
qed

lemma orderColumnsBy_new_name:
  assumes lc: "consistent_comparator lc" and pref: "distinct pref"
    and new: "n \<notin> set pref" "n \<notin> field_names rows"
    and names: "field_names (rows @ added) = insert n (field_names rows)"
  shows "orderColumnsBy lc pref (rows @ added)
           = filter (\<lambda>p. p \<in> field_names rows) pref @ array_sort lc (other_names pref rows @ [n])"
    and "filter (\<lambda>c. c \<noteq> n) (orderColumnsBy lc pref (rows @ added)) = orderColumnsBy lc pref rows"
proof -
  have others: "other_names pref (rows @ added) = other_names pref rows @ [n]"
    using new by (simp add: other_names_def first_appearance_new_name [OF new(2) names])
  have preferred: "filter (\<lambda>p. p \<in> field_names (rows @ added)) pref = filter (\<lambda>p. p \<in> field_names rows) pref"
    using new(1) by (intro filter_cong) (auto simp: names)
  show eq: "orderColumnsBy lc pref (rows @ added)
           = filter (\<lambda>p. p \<in> field_names rows) pref @ array_sort lc (other_names pref rows @ [n])"
    by (simp add: orderColumnsBy_split [OF pref] others preferred)
  have "filter (\<lambda>c. c \<noteq> n) (filter (\<lambda>p. p \<in> field_names rows) pref) = filter (\<lambda>p. p \<in> field_names rows) pref"
    using new(1) by (intro filter_True) auto
  moreover have "filter (\<lambda>c. c \<noteq> n) (array_sort lc (other_names pref rows @ [n])) = array_sort lc (other_names pref rows)"
    using lc new(2) by (intro array_sort_new_name) auto
  ultimately have "filter (\<lambda>c. c \<noteq> n)
        (filter (\<lambda>p. p \<in> field_names rows) pref @ array_sort lc (other_names pref rows @ [n]))
      = filter (\<lambda>p. p \<in> field_names rows) pref @ array_sort lc (other_names pref rows)"
    by (simp only: filter_append)
  then show "filter (\<lambda>c. c \<noteq> n) (orderColumnsBy lc pref (rows @ added)) = orderColumnsBy lc pref rows"
    unfolding eq by (simp only: orderColumnsBy_split [OF pref, of lc rows])
qed

text \<open>
  C5. The column order holds exactly the names that appear in some row, each once: first
  the names of the preference list that appear, in the order of the list, then the other
  names, sorted by the collation, which is the alphabetical order of the host. When rows
  are added that bring one new name \<open>n\<close>, not in the preference list, the new name is
  sorted in among the other names, after all preferred names, and the names that were
  there keep their order.
\<close>

theorem orderColumns_preferred_then_alphabetical:
  assumes "consistent_comparator lc"
  shows "orderColumns lc rows
           = filter (\<lambda>p. p \<in> field_names rows) PREFERRED_ORDER
             @ array_sort lc (other_names PREFERRED_ORDER rows)
       \<and> orderColumns_snapshot lc rows
           = filter (\<lambda>p. p \<in> field_names rows) PREFERRED_ORDER_snapshot
             @ array_sort lc (other_names PREFERRED_ORDER_snapshot rows)
       \<and> sorted_wrt (\<lambda>a b. lc a b \<le> 0) (array_sort lc (other_names PREFERRED_ORDER rows))
       \<and> sorted_wrt (\<lambda>a b. lc a b \<le> 0) (array_sort lc (other_names PREFERRED_ORDER_snapshot rows))
       \<and> set (array_sort lc (other_names PREFERRED_ORDER rows)) = field_names rows - set PREFERRED_ORDER
       \<and> set (orderColumns lc rows) = field_names rows \<and> distinct (orderColumns lc rows)
       \<and> (n \<notin> set PREFERRED_ORDER \<longrightarrow> n \<notin> field_names rows
            \<longrightarrow> field_names (rows @ added) = insert n (field_names rows)
            \<longrightarrow> orderColumns lc (rows @ added)
                  = filter (\<lambda>p. p \<in> field_names rows) PREFERRED_ORDER
                    @ array_sort lc (other_names PREFERRED_ORDER rows @ [n])
                \<and> sorted_wrt (\<lambda>a b. lc a b \<le> 0) (array_sort lc (other_names PREFERRED_ORDER rows @ [n]))
                \<and> filter (\<lambda>c. c \<noteq> n) (orderColumns lc (rows @ added)) = orderColumns lc rows)"
proof -
  have "orderColumns lc rows
           = filter (\<lambda>p. p \<in> field_names rows) PREFERRED_ORDER
             @ array_sort lc (other_names PREFERRED_ORDER rows)"
    unfolding orderColumns_def by (rule orderColumnsBy_split) (rule distinct_PREFERRED_ORDER)
  moreover have "orderColumns_snapshot lc rows
           = filter (\<lambda>p. p \<in> field_names rows) PREFERRED_ORDER_snapshot
             @ array_sort lc (other_names PREFERRED_ORDER_snapshot rows)"
    unfolding orderColumns_snapshot_def
    by (rule orderColumnsBy_split) (rule distinct_PREFERRED_ORDER_snapshot)
  moreover have "sorted_wrt (\<lambda>a b. lc a b \<le> 0) (array_sort lc xs)" for xs
    using assms by (rule sorted_array_sort)
  moreover have "set (array_sort lc (other_names PREFERRED_ORDER rows)) = field_names rows - set PREFERRED_ORDER"
    by simp
  moreover have "set (orderColumns lc rows) = field_names rows" "distinct (orderColumns lc rows)"
    by (simp_all add: orderColumns_def)
  moreover have "orderColumns lc (rows @ added)
                  = filter (\<lambda>p. p \<in> field_names rows) PREFERRED_ORDER
                    @ array_sort lc (other_names PREFERRED_ORDER rows @ [n])"
    "filter (\<lambda>c. c \<noteq> n) (orderColumns lc (rows @ added)) = orderColumns lc rows"
    if "n \<notin> set PREFERRED_ORDER" "n \<notin> field_names rows"
      "field_names (rows @ added) = insert n (field_names rows)"
    unfolding orderColumns_def
    using orderColumnsBy_new_name [OF assms distinct_PREFERRED_ORDER that] by simp_all
  ultimately show ?thesis
    by blast
qed

theorem orderColumns_preferred_then_alphabetical_witness:
  "consistent_comparator localeCompare_canonical
   \<and> ''beta'' \<notin> set PREFERRED_ORDER
   \<and> ''beta'' \<notin> field_names [[(''Zeta'', JString ''x''), (''notes'', JNull)], [(''created_at'', JBool True), (''alpha'', JNull)]]
   \<and> field_names ([[(''Zeta'', JString ''x''), (''notes'', JNull)], [(''created_at'', JBool True), (''alpha'', JNull)]]
                   @ [[(''beta'', JOther ''1''), (''notes'', JNull)]])
       = insert ''beta'' (field_names [[(''Zeta'', JString ''x''), (''notes'', JNull)], [(''created_at'', JBool True), (''alpha'', JNull)]])
   \<and> orderColumns localeCompare_canonical
        [[(''Zeta'', JString ''x''), (''notes'', JNull)], [(''created_at'', JBool True), (''alpha'', JNull)]]
       = [''created_at'', ''notes'', ''alpha'', ''Zeta'']
   \<and> orderColumns localeCompare_canonical
        ([[(''Zeta'', JString ''x''), (''notes'', JNull)], [(''created_at'', JBool True), (''alpha'', JNull)]]
         @ [[(''beta'', JOther ''1''), (''notes'', JNull)]])
       = [''created_at'', ''notes'', ''alpha'', ''beta'', ''Zeta'']"
proof -
  let ?rows = "[[(''Zeta'', JString ''x''), (''notes'', JNull)], [(''created_at'', JBool True), (''alpha'', JNull)]]"
  let ?added = "[[(''beta'', JOther ''1''), (''notes'', JNull)]]"
  have p: "''beta'' \<notin> set PREFERRED_ORDER"
    by (simp add: PREFERRED_ORDER_def)
  have k: "''beta'' \<notin> field_names ?rows"
    by (simp add: field_names_def Object_keys_def)
  have k': "field_names (?rows @ ?added) = insert ''beta'' (field_names ?rows)"
    by (auto simp: field_names_def Object_keys_def)
  have names: "filter (\<lambda>p. p \<in> field_names ?rows) PREFERRED_ORDER = [''created_at'', ''notes'']"
    by (simp add: PREFERRED_ORDER_def field_names_def Object_keys_def)
  have others: "other_names PREFERRED_ORDER ?rows = [''Zeta'', ''alpha'']"
    by (simp add: other_names_def first_appearance_def Object_keys_def PREFERRED_ORDER_def)
  have sort: "array_sort localeCompare_canonical [''Zeta'', ''alpha''] = [''alpha'', ''Zeta'']"
    "array_sort localeCompare_canonical ([''Zeta'', ''alpha''] @ [''beta'']) = [''alpha'', ''beta'', ''Zeta'']"
    by code_simp+
  note fact = orderColumns_preferred_then_alphabetical [OF consistent_localeCompare_canonical,
      of ?rows "''beta''" ?added]
  have "orderColumns localeCompare_canonical ?rows
          = filter (\<lambda>p. p \<in> field_names ?rows) PREFERRED_ORDER
            @ array_sort localeCompare_canonical (other_names PREFERRED_ORDER ?rows)"
    using fact by blast
  then have before: "orderColumns localeCompare_canonical ?rows = [''created_at'', ''notes'', ''alpha'', ''Zeta'']"
    by (simp only: names others sort) simp
  have "orderColumns localeCompare_canonical (?rows @ ?added)
          = filter (\<lambda>p. p \<in> field_names ?rows) PREFERRED_ORDER
            @ array_sort localeCompare_canonical (other_names PREFERRED_ORDER ?rows @ [''beta''])"
    using fact p k k' by blast
  then have after: "orderColumns localeCompare_canonical (?rows @ ?added)
          = [''created_at'', ''notes'', ''alpha'', ''beta'', ''Zeta'']"
    by (simp only: names others sort) simp
  show ?thesis
    using consistent_localeCompare_canonical p k k' before after by blast
qed

subsection \<open>The header line of the export\<close>

lemma join_Cons: "ys \<noteq> [] \<Longrightarrow> join sep (x # ys) = x @ sep @ join sep ys"
  by (cases ys) simp_all

lemma toCsv_nonempty:
  "rows \<noteq> [] \<Longrightarrow>
     toCsv proto rows = join [comma_char] (first_appearance rows) @ crlf
                        @ join crlf (map (csv_line proto (first_appearance rows)) rows)"
  by (simp add: toCsv_def Let_def join_Cons collectColumns_first_appearance)

text \<open>
  C8, amended. For a row set that is not empty, the CSV document starts with the column
  names joined by commas, followed by a line break and the lines of the rows; the names
  are in the order of their first appearance in the rows (the keys of the first row in
  their own order, then the new keys of each later row). They are the names of the
  viewer's column order, which is this list sorted by preference and collation.
\<close>

theorem toCsv_header_first_appearance:
  assumes "rows \<noteq> []"
  shows "toCsv proto rows = join [comma_char] (first_appearance rows) @ crlf
                            @ join crlf (map (csv_line proto (first_appearance rows)) rows)
       \<and> collectColumns rows = first_appearance rows
       \<and> set (first_appearance rows) = set (orderColumns lc rows)
       \<and> orderColumns lc rows = array_sort (compareColumns lc PREFERRED_ORDER) (first_appearance rows)"
proof -
  have "orderColumns lc rows = array_sort (compareColumns lc PREFERRED_ORDER) (first_appearance rows)"
    by (simp add: orderColumns_def orderColumnsBy_first_appearance)
  moreover have "set (first_appearance rows) = set (orderColumns lc rows)"
    by (simp add: orderColumns_def)
  ultimately show ?thesis
    using assms by (simp add: toCsv_nonempty collectColumns_first_appearance)
qed

lemma toCsv_example:
  "toCsv proto [[(''notes'', JString ''x''), (''created_at'', JString ''y'')]]
     = ''notes,created_at'' @ crlf @ ''x,y''"
  by (simp add: toCsv_nonempty first_appearance_def Object_keys_def csv_line_def row_get_def
      escape_text has_special_def comma_char_def quote_char_def lf_char_def)

lemma orderColumns_example2:
  "orderColumns lc [[(''notes'', JString ''x''), (''created_at'', JString ''y'')]] = [''created_at'', ''notes'']"
  by (simp add: orderColumns_def orderColumnsBy_first_appearance first_appearance_def Object_keys_def
      array_sort_Cons compareColumns_def PREFERRED_ORDER_def)

theorem toCsv_header_first_appearance_witness:
  "[[(''notes'', JString ''x''), (''created_at'', JString ''y'')]] \<noteq> []
   \<and> first_appearance [[(''notes'', JString ''x''), (''created_at'', JString ''y'')]] = [''notes'', ''created_at'']
   \<and> toCsv [] [[(''notes'', JString ''x''), (''created_at'', JString ''y'')]]
       = ''notes,created_at'' @ crlf @ ''x,y''"
proof -
  let ?rows = "[[(''notes'', JString ''x''), (''created_at'', JString ''y'')]]"
  have ne: "?rows \<noteq> []" by simp
  have fa: "first_appearance ?rows = [''notes'', ''created_at'']"
    by (simp add: first_appearance_def Object_keys_def)
  have "toCsv [] ?rows = join [comma_char] (first_appearance ?rows) @ crlf
                      @ join crlf (map (csv_line [] (first_appearance ?rows)) ?rows)"
    using toCsv_header_first_appearance [OF ne, of "[]" localeCompare_canonical] by blast
  then have "toCsv [] ?rows = ''notes,created_at'' @ crlf @ ''x,y''"
    by (simp only: toCsv_example)
  with ne fa show ?thesis by blast
qed

text \<open>
  C8 as stated fails, whatever the collation and the inherited members: the export does
  not sort its columns. For the single row with the keys \<^verbatim>\<open>notes\<close>, \<^verbatim>\<open>created_at\<close> the
  document starts with \<^verbatim>\<open>notes,created_at\<close>, while the viewer's column order is
  \<^verbatim>\<open>created_at\<close>, \<^verbatim>\<open>notes\<close>.
\<close>

theorem toCsv_header_counterexample:
  "\<not> (\<exists>lc proto. \<forall>rows. rows \<noteq> [] \<longrightarrow>
         take (length (join [comma_char] (orderColumns lc rows))) (toCsv proto rows)
           = join [comma_char] (orderColumns lc rows))"
proof
  assume "\<exists>lc proto. \<forall>rows. rows \<noteq> [] \<longrightarrow>
         take (length (join [comma_char] (orderColumns lc rows))) (toCsv proto rows)
           = join [comma_char] (orderColumns lc rows)"
  then obtain lc proto where a: "\<forall>rows. rows \<noteq> [] \<longrightarrow>
         take (length (join [comma_char] (orderColumns lc rows))) (toCsv proto rows)
           = join [comma_char] (orderColumns lc rows)"
    by blast
  let ?rows = "[[(''notes'', JString ''x''), (''created_at'', JString ''y'')]]"
  have "take (length (join [comma_char] (orderColumns lc ?rows))) (toCsv proto ?rows)
           = join [comma_char] (orderColumns lc ?rows)"
    using a by blast
  then show False
    by (simp add: toCsv_example orderColumns_example2 comma_char_def)
qed

subsection \<open>Column names in the header\<close>

text \<open>
  C7. The values of a row are escaped, the column names are not: they are joined with bare
  commas. The row set with the single row \<^verbatim>\<open>{"a,b": "x", "c": "y"}\<close> has no value with a comma,
  quote or line feed, and its document is the document of the row set with the single
  row \<^verbatim>\<open>{"a": "x", "b,c": "y"}\<close>: no reader gives back both row sets, and a reader of CSV
  finds the three columns \<^verbatim>\<open>a\<close>, \<^verbatim>\<open>b\<close> and \<^verbatim>\<open>c\<close> in it.
\<close>

theorem toCsv_header_unescaped:
  "toCsv proto [[(''a,b'', JString ''x''), (''c'', JString ''y'')]] = ''a,b,c'' @ crlf @ ''x,y''
   \<and> toCsv proto [[(''a'', JString ''x''), (''b,c'', JString ''y'')]] = ''a,b,c'' @ crlf @ ''x,y''
   \<and> toCsv proto [[(''a,b'', JString ''x'')]] = ''a,b'' @ crlf @ ''x''"
  by (simp add: toCsv_nonempty first_appearance_def Object_keys_def csv_line_def row_get_def
      escape_text has_special_def comma_char_def quote_char_def lf_char_def)

lemma parseCsv_header_unescaped:
  "parseCsv (''a,b,c'' @ crlf @ ''x,y'') = [[''a'', ''b'', ''c''], [''x'', ''y'']]"
  "parseCsv (''a,b'' @ crlf @ ''x'') = [[''a'', ''b''], [''x'']]"
  by code_simp+

subsection \<open>Reading the export back\<close>

lemma special_chars_distinct:
  "cr_char \<noteq> comma_char" "cr_char \<noteq> lf_char" "cr_char \<noteq> quote_char"
  "comma_char \<noteq> lf_char" "comma_char \<noteq> quote_char" "lf_char \<noteq> quote_char"
  by (simp_all add: cr_char_def comma_char_def lf_char_def quote_char_def)

text \<open>
  The reader on text without quotes: a field without comma, quote and line feed is read
  as it stands, a line of such fields is read as these fields, and a document of such
  lines as these lines, provided its last line is not empty.
\<close>

lemma scan_plain_field:
  assumes "\<not> has_special fld" and "rest = [] \<or> hd rest \<noteq> lf_char"
  shows "parse_records Unquoted acc rcd (fld @ rest) = parse_records Unquoted (rev fld @ acc) rcd rest"
  using assms
proof (induction fld arbitrary: acc)
  case Nil
  then show ?case by simp
next
  case (Cons c fld)
  then have c: "c \<noteq> comma_char" "c \<noteq> quote_char" "c \<noteq> lf_char" and fld: "\<not> has_special fld"
    by (auto simp: has_special_def)
  have next_char: "fld @ rest = [] \<or> hd (fld @ rest) \<noteq> lf_char"
  proof (cases fld)
    case Nil
    with Cons.prems(2) show ?thesis by simp
  next
    case (Cons d ds)
    with fld show ?thesis by (auto simp: has_special_def)
  qed
  have "parse_records Unquoted acc rcd ((c # fld) @ rest)
          = parse_records Unquoted (c # acc) rcd (fld @ rest)"
    using c next_char by auto
  also have "\<dots> = parse_records Unquoted (rev fld @ c # acc) rcd rest"
    using fld Cons.prems(2) by (rule Cons.IH)
  finally show ?case by simp
qed

lemma scan_plain_line:
  assumes "flds \<noteq> []" and "\<forall>f \<in> set flds. \<not> has_special f"
    and "rest = [] \<or> (\<exists>more. rest = crlf @ more)"
  shows "parse_records Unquoted [] rcd (join [comma_char] flds @ rest)
           = (rev rcd @ flds)
             # (if drop 2 rest = [] then [] else parse_records Unquoted [] [] (drop 2 rest))"
  using assms(1,2)
proof (induction flds arbitrary: rcd)
  case Nil
  then show ?case by simp
next
  case (Cons x xs)
  then have x: "\<not> has_special x" by simp
  show ?case
  proof (cases xs)
    case Nil
    have "parse_records Unquoted [] rcd (x @ rest) = parse_records Unquoted (rev x @ []) rcd rest"
      using x assms(3) by (intro scan_plain_field) (auto simp: crlf_def special_chars_distinct)
    also have "\<dots> = (rev rcd @ [x])
             # (if drop 2 rest = [] then [] else parse_records Unquoted [] [] (drop 2 rest))"
      using assms(3) by (auto simp: crlf_def special_chars_distinct)
    finally show ?thesis
      using Nil by simp
  next
    case (Cons y ys)
    let ?tail = "join [comma_char] (y # ys) @ rest"
    have "parse_records Unquoted [] rcd (x @ comma_char # ?tail)
            = parse_records Unquoted (rev x @ []) rcd (comma_char # ?tail)"
      using x by (intro scan_plain_field) (auto simp: special_chars_distinct)
    also have "\<dots> = parse_records Unquoted [] (x # rcd) ?tail"
      by simp
    also have "\<dots> = (rev (x # rcd) @ y # ys)
             # (if drop 2 rest = [] then [] else parse_records Unquoted [] [] (drop 2 rest))"
      using Cons.prems Cons by (intro Cons.IH [unfolded Cons]) auto
    finally show ?thesis
      using Cons by simp
  qed
qed

lemma join_crlf_nonempty:
  assumes "ls \<noteq> []" and "join [comma_char] (last ls) \<noteq> []"
  shows "join crlf (map (join [comma_char]) ls) \<noteq> []"
proof (cases ls)
  case Nil
  with assms show ?thesis by simp
next
  case (Cons l ms)
  with assms show ?thesis
    by (cases ms) (simp_all add: crlf_def)
qed

lemma scan_plain_document:
  assumes "ls \<noteq> []" and "\<forall>l \<in> set ls. l \<noteq> [] \<and> (\<forall>f \<in> set l. \<not> has_special f)"
    and "length ls > 1 \<longrightarrow> join [comma_char] (last ls) \<noteq> []"
  shows "parse_records Unquoted [] [] (join crlf (map (join [comma_char]) ls)) = ls"
  using assms
proof (induction ls)
  case Nil
  then show ?case by simp
next
  case (Cons l ls)
  then have l: "l \<noteq> []" "\<forall>f \<in> set l. \<not> has_special f" by simp_all
  show ?case
  proof (cases ls)
    case Nil
    have "parse_records Unquoted [] [] (join [comma_char] l @ [])
            = (rev [] @ l) # (if drop 2 ([]::string) = [] then [] else parse_records Unquoted [] [] (drop 2 []))"
      using l by (intro scan_plain_line) auto
    then show ?thesis using Nil by simp
  next
    case (Cons m ms)
    let ?more = "join crlf (map (join [comma_char]) ls)"
    have last: "join [comma_char] (last ls) \<noteq> []"
      using Cons.prems(3) Cons by simp
    have more: "?more \<noteq> []"
      using Cons last by (intro join_crlf_nonempty) auto
    have ih: "parse_records Unquoted [] [] ?more = ls"
      using Cons.prems Cons last by (intro Cons.IH) auto
    have "parse_records Unquoted [] [] (join [comma_char] l @ crlf @ ?more)
            = (rev [] @ l) # (if drop 2 (crlf @ ?more) = [] then []
                              else parse_records Unquoted [] [] (drop 2 (crlf @ ?more)))"
      using l by (intro scan_plain_line) auto
    then show ?thesis
      using Cons more ih by (simp add: crlf_def)
  qed
qed

lemma escape_plain: "\<not> has_special (cell_text v) \<Longrightarrow> escapeCsvValue v = cell_text v"
  by (cases v) (simp_all add: escape_text)

lemma collectColumns_Nil: "collectColumns [] = []"
  by (simp add: collectColumns_def)

lemma row_get_plain:
  assumes "\<forall>(k, v) \<in> set row. \<not> has_special (cell_text v)"
  shows "\<not> has_special (cell_text (row_get [] row column))"
proof (cases "map_of row column")
  case None
  then show ?thesis by (simp add: row_get_def has_special_def)
next
  case (Some v)
  then have "(column, v) \<in> set row" by (rule map_of_SomeD)
  with assms Some show ?thesis by (auto simp: row_get_def)
qed

lemma row_get_no_inherited: "map_of proto column = None \<Longrightarrow> row_get proto row column = row_get [] row column"
  by (simp add: row_get_def split: option.splits)

text \<open>
  The reader undoes the quoting of the export: the document of a row whose cells hold a
  comma, quotes and a line break is read back with these cells.
\<close>

lemma parseCsv_quoted_example:
  \<open>parseCsv (toCsv [] [[(''a'', JString ''He said "hi", ok''),
                        (''b'', JString [CHR ''x'', CHR 0x0D, CHR 0x0A, CHR ''y''])]])
     = [[''a'', ''b''], [''He said "hi", ok'', [CHR ''x'', CHR 0x0D, CHR 0x0A, CHR ''y'']]]\<close>
  by code_simp

text \<open>
  Apart from the column names, the export is read back. Take a row set in which no column
  name and no cell text holds a comma, a quote or a line feed, no column name is the name
  of an inherited member, and the last row does not render as the empty line. Reading the
  produced document gives the column names in the order of the export as the header, and
  for every row, in the order of the rows, the texts of its cells in column order, where
  a null or absent cell has the empty text. The condition on the last row is owed to the
  format: RFC 4180 lets a document end with a line break that starts no record, so that a
  last line without any character cannot be told from no line.
\<close>

lemma export_read_back:
  assumes names: "\<forall>c \<in> set (collectColumns rows). \<not> has_special c \<and> map_of proto c = None"
    and vals: "\<forall>row \<in> set rows. \<forall>(k, v) \<in> set row. \<not> has_special (cell_text v)"
    and lastline: "rows = [] \<or> csv_line proto (collectColumns rows) (last rows) \<noteq> []"
  shows "parseCsv (toCsv proto rows) = table_of (collectColumns rows) rows"
proof (cases "rows = []")
  case True
  then show ?thesis
    by (simp add: toCsv_def table_of_def parseCsv_def)
next
  case rows: False
  let ?cols = "collectColumns rows"
  let ?cells = "\<lambda>row. map (\<lambda>column. cell_text (row_get [] row column)) ?cols"
  from rows lastline have lastline: "csv_line proto ?cols (last rows) \<noteq> []"
    by simp
  then have cols: "?cols \<noteq> []"
    by (auto simp: csv_line_def)
  have plain: "\<not> has_special (cell_text (row_get [] row column))" if "row \<in> set rows" for row column
    using vals that by (intro row_get_plain) auto
  have line: "csv_line proto ?cols row = join [comma_char] (?cells row)" if "row \<in> set rows" for row
  proof -
    have "escapeCsvValue (row_get proto row column) = cell_text (row_get [] row column)"
      if "column \<in> set ?cols" for column
    proof -
      have "map_of proto column = None"
        using names that by blast
      then have "row_get proto row column = row_get [] row column"
        by (rule row_get_no_inherited)
      with plain [OF \<open>row \<in> set rows\<close>, of column] show ?thesis
        by (simp add: escape_plain)
    qed
    then have "map (\<lambda>column. escapeCsvValue (row_get proto row column)) ?cols = ?cells row"
      by (intro map_cong) simp_all
    then show ?thesis
      by (simp only: csv_line_def)
  qed
  have table: "table_of ?cols rows = ?cols # map ?cells rows"
    using rows by (simp add: table_of_def)
  have doc: "toCsv proto rows = join crlf (map (join [comma_char]) (table_of ?cols rows))"
    using rows line by (simp add: toCsv_def Let_def table cong: map_cong)
  have last: "last (table_of ?cols rows) = ?cells (last rows)"
    using rows by (simp add: table last_map)
  have lastline': "join [comma_char] (last (table_of ?cols rows)) \<noteq> []"
    using lastline line [of "last rows"] rows by (simp add: last)
  have parse: "parse_records Unquoted [] [] (join crlf (map (join [comma_char]) (table_of ?cols rows)))
          = table_of ?cols rows"
  proof (rule scan_plain_document)
    show "table_of ?cols rows \<noteq> []"
      by (simp add: table)
    show "\<forall>l \<in> set (table_of ?cols rows). l \<noteq> [] \<and> (\<forall>f \<in> set l. \<not> has_special f)"
      using names cols plain by (auto simp: table)
    show "length (table_of ?cols rows) > 1 \<longrightarrow> join [comma_char] (last (table_of ?cols rows)) \<noteq> []"
      using lastline' by simp
  qed
  have "toCsv proto rows \<noteq> []"
    unfolding doc using lastline' by (intro join_crlf_nonempty) (simp_all add: table)
  then show ?thesis
    using parse by (simp add: parseCsv_def doc)
qed

lemma export_read_back_example:
  "parseCsv (toCsv [(''constructor'', JOther ''function Object() { [native code] }'')]
               [[(''created_at'', JString ''2024-05-01''), (''notes'', JNull)],
                [(''created_at'', JString ''2024-05-02''), (''notes'', JString ''ok'')]])
     = [[''created_at'', ''notes''], [''2024-05-01'', []], [''2024-05-02'', ''ok'']]"
  by code_simp

text \<open>
  A column that a row lacks is read from the inherited members: in the row set
  \<^verbatim>\<open>[{constructor: 'x'}, {a: 1}]\<close> the second row has no property \<^verbatim>\<open>constructor\<close> of its own,
  and its cell under that column is the text of the inherited function.
\<close>

lemma toCsv_inherited_example:
  "toCsv [(''constructor'', JOther ''function Object() { [native code] }'')]
         [[(''constructor'', JString ''x'')], [(''a'', JOther ''1'')]]
     = ''constructor,a'' @ crlf @ ''x,'' @ crlf @ ''function Object() { [native code] },1''"
  by code_simp

end
